theory Spec2Isabelle
  imports Complex_Main
begin

section \<open>The page: elements, computed style, geometry\<close>

text \<open>
  The overlay helpers of \<^verbatim>\<open>Workers\<close> and \<^verbatim>\<open>Quiz\<close> run inside the page and touch three
  things of an element: the attribute \<^verbatim>\<open>data-qa-hidden-temp\<close>, the inline declaration of
  \<^verbatim>\<open>display\<close>, and what \<^verbatim>\<open>getComputedStyle\<close> and \<^verbatim>\<open>getBoundingClientRect\<close> report.
  An element is a record of exactly these. The document is the list that
  \<^verbatim>\<open>querySelectorAll('body *')\<close> returns, in document order; an element is identified by its
  position in that list. Matching of CSS selectors is not modelled: every element lists the
  selector strings it matches. The style and the box of an element are what the browser
  reports when a helper reads them; that hiding an element also empties the boxes of its
  descendants is not modelled.
\<close>

record rect =
  r_left :: int
  r_top :: int
  r_width :: int
  r_height :: int

definition r_right :: "rect \<Rightarrow> int" where
  "r_right r = r_left r + r_width r"

definition r_bottom :: "rect \<Rightarrow> int" where
  "r_bottom r = r_top r + r_height r"

record element =
  matches :: "string list"
  sheet_display :: string
  inline_display :: "(string \<times> bool) option"
  visibility :: string
  opacity :: rat
  position :: string
  z_index :: int
  box :: rect
  hidden_attr :: bool
  hidden_temp :: bool

type_synonym dom = "element list"

text \<open>
  \<^verbatim>\<open>getComputedStyle(el).display\<close>: an inline declaration (value, important flag) wins over
  the value \<open>sheet_display\<close> that the style sheets give the element.
\<close>

definition computed_display :: "element \<Rightarrow> string" where
  "computed_display e = (case inline_display e of Some (v, imp) \<Rightarrow> v | None \<Rightarrow> sheet_display e)"

text \<open>\<^verbatim>\<open>document.querySelector(sel)\<close>: the position of the first element matching \<open>sel\<close>.\<close>

fun querySelector :: "dom \<Rightarrow> string \<Rightarrow> nat option" where
  "querySelector [] sel = None"
| "querySelector (e # es) sel =
     (if sel \<in> set (matches e) then Some 0 else map_option Suc (querySelector es sel))"

text \<open>
  The style test of \<^verbatim>\<open>tryOnce\<close> and \<^verbatim>\<open>isVisibleAndClickable\<close>:
  \<^verbatim>\<open>hidden || display === 'none' || visibility === 'hidden' || parseFloat(opacity) === 0\<close>.
\<close>

definition css_hidden :: "element \<Rightarrow> bool" where
  "css_hidden e = (hidden_attr e \<or> computed_display e = ''none'' \<or> visibility e = ''hidden''
                    \<or> opacity e = 0)"

definition visible :: "element \<Rightarrow> bool" where
  "visible e = (\<not> css_hidden e)"

section \<open>OverlayManager\<close>

text \<open>
  \<^verbatim>\<open>!(r.right < tBox.left || r.left > tBox.right || r.bottom < tBox.top || r.top > tBox.bottom)\<close>
\<close>

definition overlap :: "rect \<Rightarrow> rect \<Rightarrow> bool" where
  "overlap r tBox = (\<not> (r_right r < r_left tBox \<or> r_left r > r_right tBox
                        \<or> r_bottom r < r_top tBox \<or> r_top r > r_bottom tBox))"

definition positioned :: "element \<Rightarrow> bool" where
  "positioned e = (position e = ''fixed'' \<or> position e = ''absolute'' \<or> position e = ''sticky'')"

text \<open>
  The per-element tests of \<^verbatim>\<open>Workers.hideOverlappingOverlays\<close> (every \<^verbatim>\<open>continue\<close> of the
  loop body but the identity test with the target, which \<open>hide_loop\<close> makes on positions).
\<close>

definition overlapping_overlay :: "rect \<Rightarrow> element \<Rightarrow> bool" where
  "overlapping_overlay tBox e =
     (if computed_display e = ''none'' \<or> opacity e = 0 then False
      else if \<not> positioned e then False
      else if r_width (box e) = 0 \<or> r_height (box e) = 0 then False
      else overlap (box e) tBox)"

text \<open>
  The same for \<^verbatim>\<open>Quiz.hideBlockingOverlays\<close>, which also asks for a z-index that is not
  negative.
\<close>

definition blocking_overlay :: "rect \<Rightarrow> element \<Rightarrow> bool" where
  "blocking_overlay tBox e =
     (if computed_display e = ''none'' \<or> opacity e = 0 then False
      else if \<not> positioned e then False
      else if r_width (box e) = 0 \<or> r_height (box e) = 0 then False
      else overlap (box e) tBox \<and> z_index e \<ge> 0)"

text \<open>
  \<^verbatim>\<open>el.setAttribute('data-qa-hidden-temp', 'true');
  el.style.setProperty('display', 'none', 'important')\<close>
\<close>

definition hide_and_mark :: "element \<Rightarrow> element" where
  "hide_and_mark e = e\<lparr>inline_display := Some (''none'', True), hidden_temp := True\<rparr>"

text \<open>
  The loop over all elements: \<open>t\<close> is the position of the target, \<open>i\<close> the position of the
  head of the list. It returns the elements after the loop and the counter \<^verbatim>\<open>hidden\<close>.
\<close>

fun hide_loop :: "(element \<Rightarrow> bool) \<Rightarrow> nat \<Rightarrow> nat \<Rightarrow> element list \<Rightarrow> element list \<times> nat" where
  "hide_loop blk t i [] = ([], 0)"
| "hide_loop blk t i (e # es) =
     (let (es', n) = hide_loop blk t (Suc i) es
      in if i \<noteq> t \<and> blk e then (hide_and_mark e # es', Suc n) else (e # es', n))"

definition hideOverlappingOverlays :: "dom \<Rightarrow> string \<Rightarrow> dom \<times> nat" where
  "hideOverlappingOverlays d sel =
     (case querySelector d sel of
        None \<Rightarrow> (d, 0)
      | Some t \<Rightarrow> hide_loop (overlapping_overlay (box (d ! t))) t 0 d)"

definition hideBlockingOverlays :: "dom \<Rightarrow> string \<Rightarrow> dom \<times> nat" where
  "hideBlockingOverlays d sel =
     (case querySelector d sel of
        None \<Rightarrow> (d, 0)
      | Some t \<Rightarrow> hide_loop (blocking_overlay (box (d ! t))) t 0 d)"

text \<open>
  \<^verbatim>\<open>restoreHiddenOverlays\<close>: every element carrying the attribute loses it, and loses its
  inline declaration of \<^verbatim>\<open>display\<close> (\<^verbatim>\<open>style.removeProperty('display')\<close>). The number
  returned is the number of elements that carried the attribute.
\<close>

definition unmark :: "element \<Rightarrow> element" where
  "unmark e = (if hidden_temp e then e\<lparr>inline_display := None, hidden_temp := False\<rparr> else e)"

definition restoreHiddenOverlays :: "dom \<Rightarrow> dom \<times> nat" where
  "restoreHiddenOverlays d = (map unmark d, length (filter hidden_temp d))"

text \<open>The elements a user can see, position by position.\<close>

definition visible_elements :: "dom \<Rightarrow> bool list" where
  "visible_elements d = map visible d"

section \<open>ClickExecutor\<close>

text \<open>
  A tab of the browser context is a number. A click result is
  \<^verbatim>\<open>{ success: true, popup? }\<close> or \<^verbatim>\<open>{ success: false, reason }\<close>; the reasons are the
  string literals that occur in \<^verbatim>\<open>Workers.robustTryClickSelector\<close> and
  \<^verbatim>\<open>Quiz.clickWithRetries\<close>.
\<close>

type_synonym page = nat

datatype reason = NotFound | ZeroBoundingBox | CssHidden | ClickFailed | MaxRetries
  | VisibilityCheckError | NoCandidates

datatype outcome = Success "page option" | Failure reason

text \<open>
  What the browser answers during one attempt, beyond what the document determines:
  \<^item> \<open>check_throws\<close>: a call of the visibility block (\<^verbatim>\<open>page.$\<close>, \<^verbatim>\<open>boundingBox\<close>,
    \<^verbatim>\<open>page.evaluate\<close>) rejects;
  \<^item> \<open>no_box\<close>: \<^verbatim>\<open>handle.boundingBox()\<close> is \<^verbatim>\<open>null\<close>;
  \<^item> \<open>locator_click\<close>: \<^verbatim>\<open>locator.click({ timeout })\<close> resolves;
  \<^item> \<open>eval_throws\<close>: the \<^verbatim>\<open>page.evaluate\<close> that calls \<^verbatim>\<open>el.click()\<close> rejects;
  \<^item> \<open>mouse_throws\<close>: the bounding-box fallback raises (\<^verbatim>\<open>page.$\<close> or \<^verbatim>\<open>boundingBox\<close>; in
    \<^verbatim>\<open>Quiz\<close> also \<^verbatim>\<open>page.mouse.click\<close>, which \<^verbatim>\<open>Workers\<close> catches);
  \<^item> \<open>force_click\<close>: \<^verbatim>\<open>locator.click({ force: true })\<close> resolves;
  \<^item> \<open>popup\<close>: the page event seen in the window after the click, if any.
  The page functions evaluated in the document (\<^verbatim>\<open>querySelector\<close>, the overlay helpers) are
  computed from the \<open>dom\<close>, which changes only through the overlay helpers while a click
  operation runs; the evaluations of the two overlay helpers are taken to complete (when
  one rejects, the helper returns 0).
\<close>

record attempt_env =
  check_throws :: bool
  no_box :: bool
  locator_click :: bool
  eval_throws :: bool
  mouse_throws :: bool
  force_click :: bool
  popup :: "page option"

text \<open>
  The strategies before the forced click: the locator click; else \<^verbatim>\<open>el.click()\<close> in the page,
  which reports \<^verbatim>\<open>false\<close> when the element is missing or the evaluation rejects; else a
  mouse click on the centre of the bounding box, when there is a handle and a box.
\<close>

definition first_strategies :: "attempt_env \<Rightarrow> dom \<Rightarrow> string \<Rightarrow> bool" where
  "first_strategies env d sel =
     (if locator_click env then True
      else if \<not> eval_throws env \<and> querySelector d sel \<noteq> None then True
      else if mouse_throws env then False
      else querySelector d sel \<noteq> None \<and> \<not> no_box env)"

definition clickedOk :: "attempt_env \<Rightarrow> dom \<Rightarrow> string \<Rightarrow> bool" where
  "clickedOk env d sel = (if first_strategies env d sel then True else force_click env)"

text \<open>
  \<^verbatim>\<open>tryOnce\<close> of \<^verbatim>\<open>Workers.robustTryClickSelector\<close>, from the click strategies on: the
  overlays are restored, then the result is decided.
\<close>

definition click_and_restore :: "attempt_env \<Rightarrow> dom \<Rightarrow> string \<Rightarrow> outcome \<times> dom" where
  "click_and_restore env d sel =
     (let ok = clickedOk env d sel;
          d' = fst (restoreHiddenOverlays d)
      in if \<not> ok then (Failure ClickFailed, d') else (Success (popup env), d'))"

definition zero_box :: "attempt_env \<Rightarrow> element \<Rightarrow> bool" where
  "zero_box env e = (no_box env \<or> r_width (box e) = 0 \<or> r_height (box e) = 0)"

definition tryOnce :: "attempt_env \<Rightarrow> dom \<Rightarrow> string \<Rightarrow> outcome \<times> dom" where
  "tryOnce env d sel =
     (if check_throws env then click_and_restore env d sel
      else case querySelector d sel of
        None \<Rightarrow> (Failure NotFound, d)
      | Some t \<Rightarrow>
          if zero_box env (d ! t) then (Failure ZeroBoundingBox, d)
          else if css_hidden (d ! t) then
            (let (d', hid) = hideOverlappingOverlays d sel
             in if hid = 0 then (Failure CssHidden, d') else click_and_restore env d' sel)
          else click_and_restore env d sel)"

text \<open>
  The loop of \<^verbatim>\<open>robustTryClickSelector\<close>. \<open>n\<close> counts the attempts that are left, \<open>k\<close> the
  attempts made, which selects the browser's answers. Beside the result and the document
  the model returns the results of the single attempts, in order.
\<close>

definition transient :: "reason \<Rightarrow> bool" where
  "transient r = (r = ClickFailed \<or> r = VisibilityCheckError \<or> r = CssHidden)"

fun robust_loop ::
  "(nat \<Rightarrow> attempt_env) \<Rightarrow> string \<Rightarrow> nat \<Rightarrow> nat \<Rightarrow> dom \<Rightarrow> outcome \<times> dom \<times> outcome list" where
  "robust_loop envs sel 0 k d = (Failure MaxRetries, d, [])"
| "robust_loop envs sel (Suc n) k d =
     (let (result, d') = tryOnce (envs k) d sel
      in case result of
           Success p \<Rightarrow> (result, d', [result])
         | Failure r \<Rightarrow>
             if transient r then
               (let (final, d'', rest) = robust_loop envs sel n (Suc k) d'
                in (final, d'', result # rest))
             else (result, d', [result]))"

definition robustTryClickSelector ::
  "(nat \<Rightarrow> attempt_env) \<Rightarrow> dom \<Rightarrow> string \<Rightarrow> nat \<Rightarrow> outcome \<times> dom \<times> outcome list" where
  "robustTryClickSelector envs d sel maxAttempts = robust_loop envs sel maxAttempts 0 d"

subsection \<open>The click helper of the quiz\<close>

text \<open>\<^verbatim>\<open>isVisibleAndClickable\<close>: \<open>None\<close> is \<^verbatim>\<open>{ ok: true }\<close>.\<close>

definition isVisibleAndClickable :: "attempt_env \<Rightarrow> dom \<Rightarrow> string \<Rightarrow> reason option" where
  "isVisibleAndClickable env d sel =
     (if check_throws env then Some VisibilityCheckError
      else case querySelector d sel of
        None \<Rightarrow> Some NotFound
      | Some t \<Rightarrow>
          if zero_box env (d ! t) then Some ZeroBoundingBox
          else if css_hidden (d ! t) then Some CssHidden
          else None)"

text \<open>
  \<^verbatim>\<open>tryClickOnce\<close>. In the handler of the rejected locator click a missing handle or box
  and a failing mouse click raise, which leads to the forced click as a missing click does
  in \<^verbatim>\<open>Workers\<close>; so the strategies succeed under the same condition \<open>clickedOk\<close>. Nothing
  here calls \<^verbatim>\<open>restoreHiddenOverlays\<close>.
\<close>

definition tryClickOnce :: "attempt_env \<Rightarrow> dom \<Rightarrow> string \<Rightarrow> outcome \<times> dom" where
  "tryClickOnce env d sel =
     (case isVisibleAndClickable env d sel of
        Some CssHidden \<Rightarrow>
          (let d' = fst (hideBlockingOverlays d sel)
           in if clickedOk env d' sel then (Success (popup env), d') else (Failure ClickFailed, d'))
      | Some NotFound \<Rightarrow> (Failure NotFound, d)
      | Some ZeroBoundingBox \<Rightarrow> (Failure ZeroBoundingBox, d)
      | _ \<Rightarrow> if clickedOk env d sel then (Success (popup env), d) else (Failure ClickFailed, d))"

text \<open>
  The first loop of \<^verbatim>\<open>clickWithRetries\<close>, on the selector of the caller. \<open>Some\<close> is the
  result returned from inside the loop; \<open>None\<close> means the loop was left, by \<^verbatim>\<open>break\<close> or
  because no attempt remained. The third component lists the attempts made: selector and
  result.
\<close>

fun caller_loop ::
  "(nat \<Rightarrow> attempt_env) \<Rightarrow> string \<Rightarrow> nat \<Rightarrow> nat \<Rightarrow> dom
    \<Rightarrow> outcome option \<times> dom \<times> (string \<times> outcome) list" where
  "caller_loop envs sel 0 k d = (None, d, [])"
| "caller_loop envs sel (Suc n) k d =
     (let (res, d') = tryClickOnce (envs k) d sel
      in case res of
           Success p \<Rightarrow> (Some res, d', [(sel, res)])
         | Failure r \<Rightarrow>
             if r = CssHidden \<or> r = VisibilityCheckError then
               (let (final, d'', rest) = caller_loop envs sel n (Suc k) d'
                in (final, d'', (sel, res) # rest))
             else (None, d', [(sel, res)]))"

text \<open>The attempts on one heuristic candidate.\<close>

fun candidate_loop ::
  "(nat \<Rightarrow> attempt_env) \<Rightarrow> string \<Rightarrow> nat \<Rightarrow> nat \<Rightarrow> dom
    \<Rightarrow> outcome option \<times> dom \<times> (string \<times> outcome) list" where
  "candidate_loop envs c 0 k d = (None, d, [])"
| "candidate_loop envs c (Suc n) k d =
     (let (res, d') = tryClickOnce (envs k) d c
      in case res of
           Success p \<Rightarrow> (Some res, d', [(c, res)])
         | Failure r \<Rightarrow>
             if \<not> transient r then (None, d', [(c, res)])
             else (let (final, d'', rest) = candidate_loop envs c n (Suc k) d'
                   in (final, d'', (c, res) # rest)))"

text \<open>The loop over the candidates; leaving it means \<^verbatim>\<open>max-retries\<close>.\<close>

fun candidates_loop ::
  "(nat \<Rightarrow> attempt_env) \<Rightarrow> string list \<Rightarrow> nat \<Rightarrow> nat \<Rightarrow> dom
    \<Rightarrow> outcome \<times> dom \<times> (string \<times> outcome) list" where
  "candidates_loop envs [] maxAttempts k d = (Failure MaxRetries, d, [])"
| "candidates_loop envs (c # cs) maxAttempts k d =
     (let (r, d', tr) = candidate_loop envs c maxAttempts k d
      in case r of
           Some res \<Rightarrow> (res, d', tr)
         | None \<Rightarrow>
             (let (final, d'', rest) = candidates_loop envs cs maxAttempts (k + length tr) d'
              in (final, d'', tr @ rest)))"

text \<open>
  \<^verbatim>\<open>clickWithRetries\<close>. \<open>candidates\<close> is what \<^verbatim>\<open>findDailyCandidates(page)\<close> returns (the
  empty list when its evaluation rejects).
\<close>

definition clickWithRetries ::
  "(nat \<Rightarrow> attempt_env) \<Rightarrow> string list \<Rightarrow> dom \<Rightarrow> string \<Rightarrow> nat
    \<Rightarrow> outcome \<times> dom \<times> (string \<times> outcome) list" where
  "clickWithRetries envs candidates d selector maxAttempts =
     (let (r, d', tr) = caller_loop envs selector maxAttempts 0 d
      in case r of
           Some res \<Rightarrow> (res, d', tr)
         | None \<Rightarrow>
             if candidates = [] then (Failure NoCandidates, d', tr)
             else (let (final, d'', rest) = candidates_loop envs candidates maxAttempts (length tr) d'
                   in (final, d'', tr @ rest)))"

section \<open>SelectorCandidateBuilder\<close>

text \<open>
  An activity record, with the fields the dispatcher reads. A missing string field is the
  empty string, which JavaScript treats as false like \<^verbatim>\<open>undefined\<close>.
\<close>

record activity =
  offerId :: string
  name :: string
  title :: string
  promotionType :: string
  pointProgressMax :: int
  destinationUrl :: string
  complete :: bool
  exclusiveLockedFeatureStatus :: string

text \<open>\<^verbatim>\<open>s.replace(/"/g, '\\"')\<close>: a backslash before every double quote.\<close>

definition dquote :: char where
  "dquote = CHR 0x22"

definition backslash :: char where
  "backslash = CHR 0x5C"

definition escape_quotes :: "string \<Rightarrow> string" where
  "escape_quotes s = concat (map (\<lambda>c. if c = dquote then [backslash, dquote] else [c]) s)"

definition pointLink :: string where
  "pointLink = ''.pointLink:not(.contentContainer .pointLink)''"

text \<open>The three templates: \<^verbatim>\<open>[data-bi-id^="x"] ...\<close>, \<^verbatim>\<open>[data-bi-id*="x"] ...\<close>, \<^verbatim>\<open>[data-bi-id="x"] ...\<close>.\<close>

definition sel_prefix :: "string \<Rightarrow> string" where
  "sel_prefix x = ''[data-bi-id^='' @ [dquote] @ x @ [dquote] @ ''] '' @ pointLink"

definition sel_substring :: "string \<Rightarrow> string" where
  "sel_substring x = ''[data-bi-id*='' @ [dquote] @ x @ [dquote] @ ''] '' @ pointLink"

definition sel_exact :: "string \<Rightarrow> string" where
  "sel_exact x = ''[data-bi-id='' @ [dquote] @ x @ [dquote] @ ''] '' @ pointLink"

text \<open>\<^verbatim>\<open>String.prototype.includes\<close> and \<^verbatim>\<open>toLowerCase\<close> on ASCII.\<close>

fun starts_with :: "string \<Rightarrow> string \<Rightarrow> bool" where
  "starts_with s [] = True"
| "starts_with [] (p # ps) = False"
| "starts_with (c # cs) (p # ps) = (c = p \<and> starts_with cs ps)"

fun str_includes :: "string \<Rightarrow> string \<Rightarrow> bool" where
  "str_includes [] p = (p = [])"
| "str_includes (c # cs) p = (starts_with (c # cs) p \<or> str_includes cs p)"

definition lower_char :: "char \<Rightarrow> char" where
  "lower_char c = (let n = of_char c :: nat in if 65 \<le> n \<and> n \<le> 90 then char_of (n + 32) else c)"

definition toLowerCase :: "string \<Rightarrow> string" where
  "toLowerCase s = map lower_char s"

text \<open>
  \<^verbatim>\<open>/dailyset|daily|global_daily|gamification_daily|dailyglobal|global_dailyset|global_daily/i\<close>
\<close>

definition dailyRe :: "string \<Rightarrow> bool" where
  "dailyRe s =
     (let l = toLowerCase s
      in str_includes l ''dailyset'' \<or> str_includes l ''daily'' \<or> str_includes l ''global_daily''
         \<or> str_includes l ''gamification_daily'' \<or> str_includes l ''dailyglobal''
         \<or> str_includes l ''global_dailyset'' \<or> str_includes l ''global_daily'')"

text \<open>
  The heuristic scan runs in the page. For each element matching \<open>pointLink\<close> the page
  gives the chain from the element up to, not including, the body: for every element of the
  chain the value of its \<^verbatim>\<open>data-bi-id\<close>, if it has the attribute. \<open>ancestor_walk\<close> is the
  \<^verbatim>\<open>while\<close> loop, with the current \<^verbatim>\<open>dataId\<close> as accumulator.
\<close>

fun ancestor_walk :: "string option list \<Rightarrow> string \<Rightarrow> string" where
  "ancestor_walk [] dataId = dataId"
| "ancestor_walk (None # ancs) dataId = ancestor_walk ancs dataId"
| "ancestor_walk (Some v # ancs) dataId = (if dailyRe v then v else ancestor_walk ancs v)"

text \<open>\<^verbatim>\<open>if (!xs.includes(s)) xs.push(s)\<close>, which is also how a \<^verbatim>\<open>Set\<close> keeps insertion order.\<close>

definition push_new :: "'a list \<Rightarrow> 'a \<Rightarrow> 'a list" where
  "push_new xs s = (if s \<in> set xs then xs else xs @ [s])"

definition scan_element :: "string list \<Rightarrow> string option list \<Rightarrow> string list" where
  "scan_element out chain =
     (let dataId = ancestor_walk chain []
      in if dataId \<noteq> [] \<and> dailyRe dataId then push_new out (sel_exact (escape_quotes dataId))
         else out)"

definition heuristic_scan :: "string option list list \<Rightarrow> string list" where
  "heuristic_scan els = foldl scan_element [] els"

text \<open>\<^verbatim>\<open>Array.from(new Set(xs))\<close>\<close>

definition array_from_set :: "'a list \<Rightarrow> 'a list" where
  "array_from_set xs = foldl push_new [] xs"

text \<open>
  \<^verbatim>\<open>buildSelectorsForActivity\<close>. \<open>scan\<close> is \<open>None\<close> when the evaluation of the scan rejects,
  which the source ignores.
\<close>

definition buildSelectorsForActivity :: "string option list list option \<Rightarrow> activity \<Rightarrow> string list" where
  "buildSelectorsForActivity scan a =
     (let c1 = (if offerId a \<noteq> [] then [sel_prefix (offerId a), sel_prefix (escape_quotes (offerId a))]
                else []);
          c2 = c1 @ (if name a \<noteq> []
                     then [sel_prefix (escape_quotes (name a)), sel_substring (escape_quotes (name a))]
                     else []);
          c3 = (case scan of None \<Rightarrow> c2 | Some cs \<Rightarrow> foldl push_new c2 (heuristic_scan cs));
          c4 = c3 @ [pointLink, ''.pointLink'']
      in array_from_set c4)"

section \<open>ActivityDispatcher\<close>

datatype protocol = Poll | ABC | ThisOrThat | Quiz | SearchOnBing | UrlReward

text \<open>
  The \<^verbatim>\<open>switch\<close> of \<^verbatim>\<open>solveActivities\<close> on \<^verbatim>\<open>promotionType\<close> and, for a quiz, on
  \<^verbatim>\<open>pointProgressMax\<close>; \<open>None\<close> is the \<^verbatim>\<open>default\<close> branch (unsupported type).
\<close>

definition classify :: "activity \<Rightarrow> protocol option" where
  "classify a =
     (if promotionType a = ''quiz'' then
        (if pointProgressMax a = 10 then
           (if str_includes (toLowerCase (destinationUrl a)) ''pollscenarioid'' then Some Poll
            else Some ABC)
         else if pointProgressMax a = 50 then Some ThisOrThat
         else Some Quiz)
      else if promotionType a = ''urlreward'' then
        (if str_includes (toLowerCase (name a)) ''exploreonbing''
            \<or> str_includes (destinationUrl a) ''form=dsetqu''
         then Some SearchOnBing else Some UrlReward)
      else None)"

text \<open>
  What the browser answers while one activity is processed. \<open>None\<close> stands for a call that
  rejects.
  \<^item> \<open>latest_tab\<close>: \<^verbatim>\<open>getLatestTab\<close> at the head of the iteration;
  \<^item> \<open>pages_open\<close>: \<^verbatim>\<open>activityPage.context().pages().length\<close>;
  \<^item> \<open>close_fails\<close>: \<^verbatim>\<open>activityPage.close()\<close> rejects;
  \<^item> \<open>latest_tab_closed\<close>: \<^verbatim>\<open>getLatestTab\<close> after that close;
  \<^item> \<open>derived\<close>: the selector of \<^verbatim>\<open>getPunchCardActivity\<close>, empty when there is none or
    the call raises (the source ignores that);
  \<^item> \<open>scan_result\<close>: the chains for the heuristic scan of \<open>buildSelectorsForActivity\<close>;
  \<^item> \<open>robust_click\<close>: the result of \<^verbatim>\<open>robustTryClickSelector(activityPage, sel, 3, 10000)\<close>;
  \<^item> \<open>latest_tab_clicked\<close>: \<^verbatim>\<open>getLatestTab\<close> after a click without popup;
  \<^item> \<open>protocol_fails\<close>: the call of the completion protocol rejects.
\<close>

record act_env =
  latest_tab :: "page option"
  pages_open :: nat
  close_fails :: bool
  latest_tab_closed :: "page option"
  derived :: string
  scan_result :: "string option list list option"
  robust_click :: "string \<Rightarrow> outcome option"
  latest_tab_clicked :: "page option"
  protocol_fails :: bool

text \<open>
  What happened to one activity: the protocol that ran and the page it ran on, the
  warning for an unsupported type, the warning after \<open>n\<close> candidates that could not be
  clicked, or the error logged by the \<^verbatim>\<open>catch\<close> of the loop body.
\<close>

datatype act_result = Completed protocol page | Unsupported | Skipped nat | Errored

record act_log =
  subject :: activity
  candidates_tried :: "string list"
  act_result :: act_result

text \<open>
  The head of the loop body: reselect the worker page, close it when more than three tabs
  are open. The result is the variable \<^verbatim>\<open>activityPage\<close> afterwards, and whether no call
  raised.
\<close>

definition reselect :: "act_env \<Rightarrow> page \<Rightarrow> page \<times> bool" where
  "reselect env activityPage =
     (case latest_tab env of
        None \<Rightarrow> (activityPage, False)
      | Some p1 \<Rightarrow>
          if pages_open env > 3 then
            (if close_fails env then (p1, False)
             else case latest_tab_closed env of None \<Rightarrow> (p1, False) | Some p2 \<Rightarrow> (p2, True))
          else (p1, True))"

text \<open>
  The selectors of one activity: the punch card selector first, then the built ones;
  \<^verbatim>\<open>Array.from(new Set(selectors)).filter(Boolean)\<close>.
\<close>

definition candidate_selectors :: "act_env \<Rightarrow> activity \<Rightarrow> bool \<Rightarrow> string list" where
  "candidate_selectors env a punch =
     filter (\<lambda>s. s \<noteq> [])
       (array_from_set ((if punch \<and> derived env \<noteq> [] then [derived env] else [])
                         @ buildSelectorsForActivity (scan_result env) a))"

text \<open>
  The loop over the candidates, with \<^verbatim>\<open>candidateCount\<close> and \<^verbatim>\<open>maxCandidatesToTry = 5\<close>.
  It returns the candidates tried and how the loop ended.
\<close>

datatype clicked = Clicked "page option" | NoneClicked | ClickRaised

fun try_candidates :: "(string \<Rightarrow> outcome option) \<Rightarrow> string list \<Rightarrow> nat \<Rightarrow> string list \<times> clicked" where
  "try_candidates clk [] candidateCount = ([], NoneClicked)"
| "try_candidates clk (sel # sels) candidateCount =
     (if candidateCount \<ge> 5 then ([], NoneClicked)
      else case clk sel of
             None \<Rightarrow> ([sel], ClickRaised)
           | Some (Success p) \<Rightarrow> ([sel], Clicked p)
           | Some (Failure r) \<Rightarrow>
               (let (tried, c) = try_candidates clk sels (Suc candidateCount)
                in (sel # tried, c)))"

text \<open>
  The body of the loop of \<^verbatim>\<open>solveActivities\<close> with its \<^verbatim>\<open>try\<close> and \<^verbatim>\<open>catch\<close>: the log entry
  of the activity and the variable \<^verbatim>\<open>activityPage\<close> afterwards. \<open>punch\<close> says whether a
  punch card was passed.
\<close>

definition solve_activity :: "act_env \<Rightarrow> page \<Rightarrow> activity \<Rightarrow> bool \<Rightarrow> act_log \<times> page" where
  "solve_activity env activityPage a punch =
     (case reselect env activityPage of
        (p, False) \<Rightarrow> (\<lparr>subject = a, candidates_tried = [], act_result = Errored\<rparr>, p)
      | (p, True) \<Rightarrow>
          (case try_candidates (robust_click env) (candidate_selectors env a punch) 0 of
             (tried, ClickRaised) \<Rightarrow>
               (\<lparr>subject = a, candidates_tried = tried, act_result = Errored\<rparr>, p)
           | (tried, NoneClicked) \<Rightarrow>
               (\<lparr>subject = a, candidates_tried = tried, act_result = Skipped (length tried)\<rparr>, p)
           | (tried, Clicked pop) \<Rightarrow>
               (case (case pop of Some q \<Rightarrow> Some q | None \<Rightarrow> latest_tab_clicked env) of
                  None \<Rightarrow> (\<lparr>subject = a, candidates_tried = tried, act_result = Errored\<rparr>, p)
                | Some q \<Rightarrow>
                    (case classify a of
                       None \<Rightarrow>
                         (\<lparr>subject = a, candidates_tried = tried, act_result = Unsupported\<rparr>, q)
                     | Some pr \<Rightarrow>
                         if protocol_fails env
                         then (\<lparr>subject = a, candidates_tried = tried, act_result = Errored\<rparr>, q)
                         else (\<lparr>subject = a, candidates_tried = tried,
                                 act_result = Completed pr q\<rparr>, q)))))"

text \<open>
  \<^verbatim>\<open>solveActivities\<close>: the activities in list order; \<open>k\<close> is the position of the head, which
  selects the browser's answers.
\<close>

fun solveActivities ::
  "(nat \<Rightarrow> act_env) \<Rightarrow> nat \<Rightarrow> page \<Rightarrow> activity list \<Rightarrow> bool \<Rightarrow> act_log list" where
  "solveActivities envs k activityPage [] punch = []"
| "solveActivities envs k activityPage (a # acts) punch =
     (let (entry, p) = solve_activity (envs k) activityPage a punch
      in entry # solveActivities envs (Suc k) p acts punch)"

subsection \<open>The three entry points\<close>

record punchCard =
  pc_name :: string
  parentPromotion :: "activity option"
  childPromotions :: "activity list"

record dashboardData =
  dailySetPromotions :: "string \<Rightarrow> activity list option"
  punchCards :: "punchCard list"
  morePromotions :: "activity list"
  promotionalItem :: "activity option"

text \<open>
  \<^verbatim>\<open>doDailySet\<close>. \<open>today\<close> is \<^verbatim>\<open>getFormattedDate()\<close>. The result is the log of
  \<^verbatim>\<open>solveActivities\<close>; it is empty when the function returns before calling it.
\<close>

definition doDailySet :: "(nat \<Rightarrow> act_env) \<Rightarrow> string \<Rightarrow> page \<Rightarrow> dashboardData \<Rightarrow> act_log list" where
  "doDailySet envs today p data =
     (let activitiesUncompleted =
            (case dailySetPromotions data today of
               None \<Rightarrow> []
             | Some todayData \<Rightarrow> filter (\<lambda>x. \<not> complete x \<and> pointProgressMax x > 0) todayData)
      in if activitiesUncompleted = [] then []
         else solveActivities envs 0 p activitiesUncompleted False)"

text \<open>
  \<^verbatim>\<open>doMorePromotions\<close>. \<open>tab\<close> is the result of \<^verbatim>\<open>getLatestTab\<close> before the activities are
  solved; when that call rejects the function is left with no activity tried.
\<close>

definition doMorePromotions ::
  "(nat \<Rightarrow> act_env) \<Rightarrow> page option \<Rightarrow> dashboardData \<Rightarrow> act_log list" where
  "doMorePromotions envs tab data =
     (let morePromotions' = morePromotions data
            @ (case promotionalItem data of Some item \<Rightarrow> [item] | None \<Rightarrow> []);
          activitiesUncompleted =
            filter (\<lambda>x. \<not> complete x \<and> pointProgressMax x > 0
                        \<and> exclusiveLockedFeatureStatus x \<noteq> ''locked'') morePromotions'
      in if activitiesUncompleted = [] then []
         else case tab of
                None \<Rightarrow> []
              | Some p \<Rightarrow> solveActivities envs 0 p activitiesUncompleted False)"

text \<open>
  \<^verbatim>\<open>doPunchCard\<close>. For each card the browser answers with the tab before the card is opened
  (\<open>card_tab\<close>), whether \<^verbatim>\<open>page.goto\<close> rejects, the answers for the activities of the card,
  and the tab after them (\<open>None\<close> when \<^verbatim>\<open>getLatestTab\<close>, \<^verbatim>\<open>close\<close> or \<^verbatim>\<open>goHome\<close> rejects).
  None of these calls is inside a \<^verbatim>\<open>try\<close>, so a rejection leaves the function: the result is
  the log so far and whether an exception left the function.
\<close>

record card_env =
  card_tab :: "page option"
  goto_fails :: bool
  child_envs :: "nat \<Rightarrow> act_env"
  tab_after :: "page option"

fun punch_loop :: "(nat \<Rightarrow> card_env) \<Rightarrow> nat \<Rightarrow> punchCard list \<Rightarrow> act_log list \<times> bool" where
  "punch_loop cenvs k [] = ([], False)"
| "punch_loop cenvs k (pc # pcs) =
     (if (case parentPromotion pc of None \<Rightarrow> True | Some parent \<Rightarrow> title parent = [])
      then punch_loop cenvs (Suc k) pcs
      else case card_tab (cenvs k) of
             None \<Rightarrow> ([], True)
           | Some p \<Rightarrow>
               (let activitiesUncompleted = filter (\<lambda>x. \<not> complete x) (childPromotions pc)
                in if goto_fails (cenvs k) then ([], True)
                   else (let entries = solveActivities (child_envs (cenvs k)) 0 p
                                         activitiesUncompleted True
                         in case tab_after (cenvs k) of
                              None \<Rightarrow> (entries, True)
                            | Some p' \<Rightarrow>
                                (let (rest, raised) = punch_loop cenvs (Suc k) pcs
                                 in (entries @ rest, raised)))))"

definition doPunchCard :: "(nat \<Rightarrow> card_env) \<Rightarrow> dashboardData \<Rightarrow> act_log list \<times> bool" where
  "doPunchCard cenvs data =
     (let punchCardsUncompleted =
            filter (\<lambda>x. case parentPromotion x of None \<Rightarrow> False | Some parent \<Rightarrow> \<not> complete parent)
              (punchCards data)
      in if punchCardsUncompleted = [] then ([], False)
         else punch_loop cenvs 0 punchCardsUncompleted)"

section \<open>Completion protocols\<close>

text \<open>
  What a protocol run did: the selectors it clicked (every call of a click operation, in
  order), the pages on which it called \<^verbatim>\<open>close()\<close>, the variable \<^verbatim>\<open>page\<close> when it
  returned, and its last log line.
\<close>

datatype report = CompletedOk | FailedToSolve | ErrorOccurred | StartFailed | InvalidData
  | RefreshFailed

record run =
  clicks :: "string list"
  closed_pages :: "page list"
  last_page :: page
  report :: report

text \<open>Decimal digits of a number, for the template strings with an index.\<close>

fun show_nat :: "nat \<Rightarrow> string" where
  "show_nat n = (if n < 10 then [char_of (48 + n)] else show_nat (n div 10) @ [char_of (48 + n mod 10)])"

subsection \<open>Poll\<close>



subsection \<open>SearchOnBing\<close>



subsection \<open>ABC\<close>

text \<open>
  The page as loaded by \<^verbatim>\<open>loadInCheerio\<close>: whether \<^verbatim>\<open>span.rw_icon\<close> is there, and the
  \<^verbatim>\<open>id\<close> of every \<^verbatim>\<open>.wk_OptionClickClass\<close> element.
\<close>

record snapshot =
  rw_icon :: bool
  answer_ids :: "string option list"

text \<open>
  The browser's answers in one iteration: the four waits and clicks resolve or reject, \<open>abc_pick\<close>
  is the random index, \<open>abc_latest\<close> and \<open>abc_reload\<close> are the results of \<^verbatim>\<open>getLatestTab\<close>
  and \<^verbatim>\<open>loadInCheerio\<close> (\<open>None\<close>: the call rejects).
\<close>

record abc_env =
  options_visible :: bool
  abc_pick :: nat
  answer_visible :: bool
  answer_clicked :: bool
  next_visible :: bool
  next_clicked :: bool
  abc_latest :: "page option"
  abc_reload :: "snapshot option"

record abc_state =
  raised :: bool
  iterations :: nat
  current_page :: page
  clicked_so_far :: "string list"

text \<open>\<^verbatim>\<open>page = await getLatestTab(page); $ = await loadInCheerio(page)\<close>\<close>

definition abc_refresh :: "abc_env \<Rightarrow> page \<Rightarrow> (page \<times> snapshot option)" where
  "abc_refresh env p =
     (case abc_latest env of
        None \<Rightarrow> (p, None)
      | Some p' \<Rightarrow> (p', abc_reload env))"

text \<open>\<^verbatim>\<open>answers[idx]?.attribs?.['id']\<close>, \<open>None\<close> when it is not a non-empty string.\<close>

definition chosen_answer :: "snapshot \<Rightarrow> nat \<Rightarrow> string option" where
  "chosen_answer s idx =
     (if idx < length (answer_ids s) then
        (case answer_ids s ! idx of None \<Rightarrow> None | Some a \<Rightarrow> if a = [] then None else Some a)
      else None)"

text \<open>
  The \<^verbatim>\<open>for\<close> loop of \<^verbatim>\<open>doABC\<close>, \<^verbatim>\<open>maxIterations = 15\<close>. The state when the loop is left:
  by its condition, or by an exception (\<open>raised\<close>).
\<close>

function abc_loop :: "(nat \<Rightarrow> abc_env) \<Rightarrow> nat \<Rightarrow> page \<Rightarrow> snapshot \<Rightarrow> string list \<Rightarrow> abc_state" where
  "abc_loop envs i p s cl =
     (if i < 15 \<and> \<not> rw_icon s then
        (if \<not> options_visible (envs i)
         then \<lparr>raised = True, iterations = i, current_page = p, clicked_so_far = cl\<rparr>
         else case (if answer_ids s = [] then None else chosen_answer s (abc_pick (envs i))) of
           None \<Rightarrow>
             (case abc_refresh (envs i) p of
                (p', None) \<Rightarrow>
                  \<lparr>raised = True, iterations = i, current_page = p', clicked_so_far = cl\<rparr>
              | (p', Some s') \<Rightarrow> abc_loop envs (Suc i) p' s' cl)
         | Some answer \<Rightarrow>
             if \<not> answer_visible (envs i)
             then \<lparr>raised = True, iterations = i, current_page = p, clicked_so_far = cl\<rparr>
             else if \<not> answer_clicked (envs i)
             then \<lparr>raised = True, iterations = i, current_page = p,
                    clicked_so_far = cl @ [''#'' @ answer]\<rparr>
             else if \<not> next_visible (envs i)
             then \<lparr>raised = True, iterations = i, current_page = p,
                    clicked_so_far = cl @ [''#'' @ answer]\<rparr>
             else if \<not> next_clicked (envs i)
             then \<lparr>raised = True, iterations = i, current_page = p,
                    clicked_so_far = cl @ [''#'' @ answer, ''div.wk_button'']\<rparr>
             else (case abc_refresh (envs i) p of
                     (p', None) \<Rightarrow>
                       \<lparr>raised = True, iterations = i, current_page = p',
                         clicked_so_far = cl @ [''#'' @ answer, ''div.wk_button'']\<rparr>
                   | (p', Some s') \<Rightarrow>
                       abc_loop envs (Suc i) p' s' (cl @ [''#'' @ answer, ''div.wk_button''])))
      else \<lparr>raised = False, iterations = i, current_page = p, clicked_so_far = cl\<rparr>)"
  by pat_completeness auto
termination
  by (relation "measure (\<lambda>(envs, i, p, s, cl). 15 - i)") auto

declare abc_loop.simps [simp del]

text \<open>
  \<^verbatim>\<open>doABC\<close>. \<open>first_load\<close> is the first \<^verbatim>\<open>loadInCheerio\<close>, \<open>close_rejects\<close> says whether
  the \<^verbatim>\<open>page.close()\<close> of the \<^verbatim>\<open>try\<close> block rejects; in the \<^verbatim>\<open>catch\<close> block the close has a
  \<^verbatim>\<open>try\<close> of its own. The second component is the final value of \<^verbatim>\<open>i\<close>.
\<close>

definition doABC :: "(nat \<Rightarrow> abc_env) \<Rightarrow> snapshot option \<Rightarrow> bool \<Rightarrow> page \<Rightarrow> run \<times> nat" where
  "doABC envs first_load close_rejects p =
     (case first_load of
        None \<Rightarrow> (\<lparr>clicks = [], closed_pages = [p], last_page = p, report = ErrorOccurred\<rparr>, 0)
      | Some s \<Rightarrow>
          (let st = abc_loop envs 0 p s []
           in if raised st
              then (\<lparr>clicks = clicked_so_far st, closed_pages = [current_page st],
                      last_page = current_page st, report = ErrorOccurred\<rparr>, iterations st)
              else if close_rejects
              then (\<lparr>clicks = clicked_so_far st, closed_pages = [current_page st, current_page st],
                      last_page = current_page st, report = ErrorOccurred\<rparr>, iterations st)
              else (\<lparr>clicks = clicked_so_far st, closed_pages = [current_page st],
                      last_page = current_page st,
                      report = (if iterations st = 15 then FailedToSolve else CompletedOk)\<rparr>,
                    iterations st)))"

subsection \<open>Quiz\<close>

text \<open>
  \<^verbatim>\<open>_w.rewardsQuizRenderInfo\<close> as parsed by \<^verbatim>\<open>getQuizData\<close>. A numeric field is \<open>None\<close>
  when its \<^verbatim>\<open>typeof\<close> is not \<^verbatim>\<open>'number'\<close>.
\<close>

record quizData =
  maxQuestions :: "int option"
  correctlyAnswered :: "int option"
  numberOfOptions :: "int option"
  correctAnswer :: string

text \<open>
  Reading an answer option: \<^verbatim>\<open>waitForSelector\<close> gives no handle, or reading the attribute
  raises, or the attribute is read (\<open>None\<close> for \<^verbatim>\<open>null\<close>).
\<close>

datatype option_read = NotVisible | ReadRaised | Attribute "string option"

text \<open>
  What a call of \<^verbatim>\<open>clickWithRetries\<close> reports to \<^verbatim>\<open>doQuiz\<close>: its result, and the click
  attempts it made, each with the selector it was made on and its result.
\<close>

type_synonym click_report = "outcome \<times> (string \<times> outcome) list"

text \<open>
  The browser's answers while one question is processed by \<^verbatim>\<open>doQuiz\<close> of \<^verbatim>\<open>ABC.ts\<close>:
  \<^item> \<open>head_data\<close>: \<^verbatim>\<open>getQuizData\<close> at the head of the loop body (\<open>None\<close>: it rejects);
  \<^item> \<open>branch_data\<close>: \<^verbatim>\<open>getQuizData\<close> in the branch for 2, 3 or 4 options;
  \<^item> \<open>option_reads i\<close>: reading \<^verbatim>\<open>#rqAnswerOption\<close>\<open>i\<close>;
  \<^item> \<open>click_op sel m\<close>: the call \<^verbatim>\<open>clickWithRetries(page, sel, m, ...)\<close>, which \<^verbatim>\<open>doQuiz\<close> makes
    with \<open>m = 3\<close> and, for its one retry, with \<open>m = 1\<close> (\<open>None\<close>: the call raises, and
    the attempts it made are not reported);
  \<^item> \<open>refreshed i\<close>: \<^verbatim>\<open>waitForQuizRefresh\<close> after the click on that option;
  \<^item> \<open>tail_data\<close>: \<^verbatim>\<open>getQuizData(page).catch(() => null)\<close> at the end of the loop body.
\<close>

record question_env =
  head_data :: "quizData option"
  branch_data :: "quizData option"
  option_reads :: "nat \<Rightarrow> option_read"
  click_op :: "string \<Rightarrow> nat \<Rightarrow> click_report option"
  refreshed :: "nat \<Rightarrow> bool"
  tail_data :: "quizData option"

text \<open>
  The click operation as \<^verbatim>\<open>clickWithRetries\<close> computes it. The page in which a call starts
  is given by the browser: its answers to the attempts, the result of
  \<^verbatim>\<open>findDailyCandidates\<close>, and the document.
\<close>

record page_state =
  attempt_answers :: "nat \<Rightarrow> attempt_env"
  daily_candidates :: "string list"
  document :: dom

definition helper_click :: "(string \<Rightarrow> nat \<Rightarrow> page_state) \<Rightarrow> string \<Rightarrow> nat \<Rightarrow> click_report option" where
  "helper_click states sel maxAttempts =
     (let st = states sel maxAttempts;
          (res, d', tr) = clickWithRetries (attempt_answers st) (daily_candidates st) (document st)
                            sel maxAttempts
      in Some (res, tr))"

definition answerOption :: "nat \<Rightarrow> string" where
  "answerOption i = ''#rqAnswerOption'' @ show_nat i"

text \<open>
  How a piece of the loop body ends: it goes on, it leaves the loop of the questions
  (\<^verbatim>\<open>break\<close>), it has closed the page and left \<^verbatim>\<open>doQuiz\<close> (\<^verbatim>\<open>return\<close>), or an exception
  goes to the \<^verbatim>\<open>catch\<close> of \<^verbatim>\<open>doQuiz\<close>.
\<close>

datatype flow = Continue | Broke | Returned | Raised

definition after_popup :: "page \<Rightarrow> page option \<Rightarrow> page" where
  "after_popup p pop = (case pop of Some q \<Rightarrow> q | None \<Rightarrow> p)"

text \<open>\<^verbatim>\<open>for (let i = 0; i < quizData.numberOfOptions; i++)\<close>\<close>

definition option_indices :: "int option \<Rightarrow> nat list" where
  "option_indices n = (case n of None \<Rightarrow> [] | Some m \<Rightarrow> [0 ..< nat m])"

text \<open>
  The branch for 2, 3 or 4 options, in \<^verbatim>\<open>ABC.ts\<close>: the loop over the options. An exception
  in the body is caught in the body and the loop goes on. The result is how the loop
  ended (\<open>Continue\<close> also for its \<^verbatim>\<open>break\<close>), the page, and the click attempts made.
\<close>

fun single_loop ::
  "question_env \<Rightarrow> string \<Rightarrow> nat list \<Rightarrow> page \<Rightarrow> flow \<times> page \<times> (string \<times> outcome) list" where
  "single_loop env correctOption [] p = (Continue, p, [])"
| "single_loop env correctOption (i # is) p =
     (case option_reads env i of
        NotVisible \<Rightarrow> single_loop env correctOption is p
      | ReadRaised \<Rightarrow> single_loop env correctOption is p
      | Attribute dataOption \<Rightarrow>
          if dataOption = Some correctOption then
            (case click_op env (answerOption i) 3 of
               None \<Rightarrow> single_loop env correctOption is p
             | Some (Success pop, tr) \<Rightarrow>
                 (if refreshed env i then (Continue, after_popup p pop, tr)
                  else (Returned, after_popup p pop, tr))
             | Some (Failure r, tr) \<Rightarrow>
                 (case click_op env (answerOption i) 1 of
                    None \<Rightarrow>
                      (let (f, p', cl) = single_loop env correctOption is p
                       in (f, p', tr @ cl))
                  | Some (Failure r', tr') \<Rightarrow> (Continue, p, tr @ tr')
                  | Some (Success pop, tr') \<Rightarrow>
                      (if refreshed env i then (Continue, after_popup p pop, tr @ tr')
                       else (Returned, after_popup p pop, tr @ tr'))))
          else single_loop env correctOption is p)"

text \<open>
  The branch for 8 options: the options whose \<^verbatim>\<open>iscorrectoption\<close> is \<^verbatim>\<open>true\<close>, then a click
  on each. Here a click operation that raises is not caught in the loop.
\<close>

definition flagged_correct :: "question_env \<Rightarrow> nat list \<Rightarrow> nat list" where
  "flagged_correct env is =
     filter (\<lambda>i. case option_reads env i of
                   Attribute (Some v) \<Rightarrow> v \<noteq> [] \<and> toLowerCase v = ''true''
                 | _ \<Rightarrow> False) is"

fun multi_loop ::
  "question_env \<Rightarrow> nat list \<Rightarrow> page \<Rightarrow> flow \<times> page \<times> (string \<times> outcome) list" where
  "multi_loop env [] p = (Continue, p, [])"
| "multi_loop env (i # is) p =
     (case click_op env (answerOption i) 3 of
        None \<Rightarrow> (Raised, p, [])
      | Some (Failure r, tr) \<Rightarrow>
          (let (f, p', cl) = multi_loop env is p in (f, p', tr @ cl))
      | Some (Success pop, tr) \<Rightarrow>
          if \<not> refreshed env i then (Returned, after_popup p pop, tr)
          else (let (f, p', cl) = multi_loop env is (after_popup p pop)
                in (f, p', tr @ cl)))"

text \<open>
  \<^verbatim>\<open>questionsRemaining\<close> is a number or \<^verbatim>\<open>NaN\<close> (\<open>None\<close>); a comparison with \<^verbatim>\<open>NaN\<close> is
  false.
\<close>

definition remaining_of :: "quizData \<Rightarrow> int \<Rightarrow> int option" where
  "remaining_of qd answered = (case maxQuestions qd of None \<Rightarrow> None | Some m \<Rightarrow> Some (m - answered))"


text \<open>
  One pass through the body of the loop of the questions: how it ends, the page, the click
  attempts made and \<^verbatim>\<open>questionsRemaining\<close> afterwards.
\<close>

definition answer_question ::
  "question_env \<Rightarrow> int option \<Rightarrow> page
    \<Rightarrow> flow \<times> page \<times> (string \<times> outcome) list \<times> int option" where
  "answer_question env rem p =
     (case head_data env of
        None \<Rightarrow> (Raised, p, [], rem)
      | Some qd \<Rightarrow>
          (case numberOfOptions qd of
             None \<Rightarrow> (Broke, p, [], rem)
           | Some n \<Rightarrow>
               (let (f, p', cl) =
                      (if n = 8 then
                         multi_loop env (flagged_correct env (option_indices (Some n))) p
                       else if n \<in> {2, 3, 4} then
                         (case branch_data env of
                            None \<Rightarrow> (Raised, p, [])
                          | Some qd' \<Rightarrow>
                              single_loop env (correctAnswer qd')
                                (option_indices (numberOfOptions qd')) p)
                       else (Broke, p, []))
                in if f \<noteq> Continue then (f, p', cl, rem)
                   else case tail_data env of
                          None \<Rightarrow> (Continue, p', cl, rem)
                        | Some qr \<Rightarrow>
                            (case correctlyAnswered qr of
                               None \<Rightarrow> (Continue, p', cl, rem)
                             | Some c \<Rightarrow>
                                 (case remaining_of qr c of
                                    None \<Rightarrow> (Continue, p', cl, None)
                                  | Some r \<Rightarrow>
                                      if r \<le> 0 then (Broke, p', cl, Some r)
                                      else (Continue, p', cl, Some r))))))"





subsection \<open>The branch for 2, 3 or 4 options in \<^verbatim>\<open>Quiz.ts\<close>\<close>

text \<open>
  There \<^verbatim>\<open>waitForSelector\<close> has no \<^verbatim>\<open>catch\<close> and the click is \<^verbatim>\<open>page.click\<close>: an option that
  does not become visible, a read that raises and a click that rejects (\<open>page_click i\<close>
  false) all go to the \<^verbatim>\<open>catch\<close> of \<^verbatim>\<open>doQuiz\<close>. The loop has no \<^verbatim>\<open>break\<close>. The result is how
  the loop ended and the clicks called.
\<close>

fun ts_single_loop ::
  "(nat \<Rightarrow> option_read) \<Rightarrow> (nat \<Rightarrow> bool) \<Rightarrow> (nat \<Rightarrow> bool) \<Rightarrow> string \<Rightarrow> nat list \<Rightarrow> flow \<times> string list" where
  "ts_single_loop reads page_click refresh correctOption [] = (Continue, [])"
| "ts_single_loop reads page_click refresh correctOption (i # is) =
     (case reads i of
        NotVisible \<Rightarrow> (Raised, [])
      | ReadRaised \<Rightarrow> (Raised, [])
      | Attribute dataOption \<Rightarrow>
          if dataOption = Some correctOption then
            (if \<not> page_click i then (Raised, [answerOption i])
             else if \<not> refresh i then (Returned, [answerOption i])
             else (let (f, cl) = ts_single_loop reads page_click refresh correctOption is
                   in (f, answerOption i # cl)))
          else ts_single_loop reads page_click refresh correctOption is)"

text \<open>
  The branch itself: \<open>data\<close> is the \<^verbatim>\<open>getQuizData\<close> of the branch (\<open>None\<close>: it rejects).
\<close>

definition ts_single_answer ::
  "quizData option \<Rightarrow> (nat \<Rightarrow> option_read) \<Rightarrow> (nat \<Rightarrow> bool) \<Rightarrow> (nat \<Rightarrow> bool) \<Rightarrow> flow \<times> string list" where
  "ts_single_answer data reads page_click refresh =
     (case data of
        None \<Rightarrow> (Raised, [])
      | Some qd \<Rightarrow>
          ts_single_loop reads page_click refresh (correctAnswer qd)
            (option_indices (numberOfOptions qd)))"

section \<open>Hypotheses of the theorems\<close>

text \<open>
  After a suppression, every element that carries the tag \<^verbatim>\<open>data-qa-hidden-temp\<close> (because
  the suppression hid it, or because it carried the tag before) had no inline declaration
  of \<^verbatim>\<open>display\<close> in the document \<open>d\<close> before the suppression.
\<close>

definition tagged_without_inline :: "dom \<Rightarrow> dom \<Rightarrow> bool" where
  "tagged_without_inline suppressed d =
     list_all2 (\<lambda>h e. hidden_temp h \<longrightarrow> inline_display e = None) suppressed d"



text \<open>
  The ABC page never shows the completion marker and the browser answers every call of the
  loop body: the waits and clicks resolve, \<^verbatim>\<open>getLatestTab\<close> gives a tab and the page loaded
  from it has no \<^verbatim>\<open>span.rw_icon\<close>.
\<close>

definition never_completes :: "(nat \<Rightarrow> abc_env) \<Rightarrow> bool" where
  "never_completes envs =
     (\<forall>i. options_visible (envs i) \<and> answer_visible (envs i) \<and> answer_clicked (envs i)
          \<and> next_visible (envs i) \<and> next_clicked (envs i) \<and> abc_latest (envs i) \<noteq> None
          \<and> (case abc_reload (envs i) of None \<Rightarrow> False | Some s \<Rightarrow> \<not> rw_icon s))"

text \<open>
  A click attempt landed: one of the click strategies of the attempt resolved. Of the
  attempts of one call of \<^verbatim>\<open>clickWithRetries\<close> only the last can land, and it does when the
  call reports success.
\<close>

definition landed :: "string \<times> outcome \<Rightarrow> bool" where
  "landed a = (case snd a of Success pop \<Rightarrow> True | Failure r \<Rightarrow> False)"

definition one_landing :: "outcome \<Rightarrow> (string \<times> outcome) list \<Rightarrow> bool" where
  "one_landing res tr =
     ((\<forall>a \<in> set (butlast tr). \<not> landed a)
      \<and> (case res of
            Success pop \<Rightarrow> tr \<noteq> [] \<and> snd (last tr) = res
          | Failure r \<Rightarrow> \<forall>a \<in> set tr. \<not> landed a))"

text \<open>The call of the click operation succeeded and a popup \<open>x\<close> came with it.\<close>

definition opens :: "click_report option \<Rightarrow> page \<Rightarrow> bool" where
  "opens c x = (case c of Some (Success (Some y), tr) \<Rightarrow> y = x | _ \<Rightarrow> False)"

section \<open>Example pages, activities and browsers\<close>

text \<open>
  A start button that is in the page with \<^verbatim>\<open>visibility: hidden\<close>, under a fixed banner
  that the style sheet displays.
\<close>

definition start_button :: element where
  "start_button =
     \<lparr>matches = [''#rqStartQuiz''], sheet_display = ''block'', inline_display = None,
      visibility = ''hidden'', opacity = 1, position = ''static'', z_index = 0,
      box = \<lparr>r_left = 10, r_top = 10, r_width = 100, r_height = 40\<rparr>,
      hidden_attr = False, hidden_temp = False\<rparr>"

definition cookie_banner :: element where
  "cookie_banner =
     \<lparr>matches = [''#banner''], sheet_display = ''block'', inline_display = None,
      visibility = ''visible'', opacity = 1, position = ''fixed'', z_index = 1000,
      box = \<lparr>r_left = 0, r_top = 0, r_width = 800, r_height = 60\<rparr>,
      hidden_attr = False, hidden_temp = False\<rparr>"

text \<open>
  A dialog that the style sheet hides and a script has opened with
  \<^verbatim>\<open>dialog.style.display = 'block'\<close>.
\<close>

definition opened_dialog :: element where
  "opened_dialog =
     \<lparr>matches = [''#dialog''], sheet_display = ''none'', inline_display = Some (''block'', False),
      visibility = ''visible'', opacity = 1, position = ''fixed'', z_index = 1000,
      box = \<lparr>r_left = 0, r_top = 0, r_width = 800, r_height = 60\<rparr>,
      hidden_attr = False, hidden_temp = False\<rparr>"

definition daily_link :: element where
  "daily_link =
     \<lparr>matches = [''.pointLink''], sheet_display = ''block'', inline_display = None,
      visibility = ''visible'', opacity = 1, position = ''static'', z_index = 0,
      box = \<lparr>r_left = 0, r_top = 100, r_width = 200, r_height = 30\<rparr>,
      hidden_attr = False, hidden_temp = False\<rparr>"

text \<open>A browser in which every click strategy works, and one in which none does.\<close>

definition responsive :: attempt_env where
  "responsive =
     \<lparr>check_throws = False, no_box = False, locator_click = True, eval_throws = False,
      mouse_throws = False, force_click = True, popup = None\<rparr>"

definition unresponsive :: attempt_env where
  "unresponsive =
     \<lparr>check_throws = False, no_box = False, locator_click = False, eval_throws = True,
      mouse_throws = True, force_click = False, popup = None\<rparr>"

text \<open>
  A browser in which the locator click and the forced click time out and \<^verbatim>\<open>el.click()\<close>,
  run in the page, works: what a target that is not visible gives.
\<close>

definition in_page_click :: attempt_env where
  "in_page_click =
     \<lparr>check_throws = False, no_box = False, locator_click = False, eval_throws = False,
      mouse_throws = False, force_click = False, popup = None\<rparr>"

text \<open>Activities of a dashboard.\<close>

definition poll_activity :: activity where
  "poll_activity =
     \<lparr>offerId = ''d1'', name = '''', title = ''Daily poll'', promotionType = ''quiz'',
      pointProgressMax = 10, destinationUrl = ''https://b/?PollScenarioId=3'',
      complete = False, exclusiveLockedFeatureStatus = ''''\<rparr>"

definition done_activity :: activity where
  "done_activity =
     \<lparr>offerId = ''d2'', name = '''', title = ''Done'', promotionType = ''urlreward'',
      pointProgressMax = 10, destinationUrl = ''https://b/'',
      complete = True, exclusiveLockedFeatureStatus = ''''\<rparr>"

definition punch_parent :: activity where
  "punch_parent =
     \<lparr>offerId = ''pc'', name = '''', title = ''Card'', promotionType = '''',
      pointProgressMax = 100, destinationUrl = ''https://b/card'',
      complete = False, exclusiveLockedFeatureStatus = ''''\<rparr>"

definition punch_child :: activity where
  "punch_child =
     \<lparr>offerId = ''c1'', name = '''', title = ''Step 1'', promotionType = ''urlreward'',
      pointProgressMax = 0, destinationUrl = ''https://b/step'',
      complete = False, exclusiveLockedFeatureStatus = ''''\<rparr>"

definition example_data :: dashboardData where
  "example_data =
     \<lparr>dailySetPromotions = (\<lambda>date. if date = ''11/02/2026'' then Some [poll_activity, done_activity]
                                   else None),
      punchCards = [\<lparr>pc_name = ''card'', parentPromotion = Some punch_parent,
                      childPromotions = [punch_child]\<rparr>],
      morePromotions = [done_activity],
      promotionalItem = Some poll_activity\<rparr>"

text \<open>
  A browser in which the first candidate is clicked and the protocol runs, one in which
  no candidate is found in the page, and one in which \<^verbatim>\<open>getLatestTab\<close> rejects.
\<close>

definition clicking_env :: act_env where
  "clicking_env =
     \<lparr>latest_tab = Some 0, pages_open = 1, close_fails = False, latest_tab_closed = Some 0,
      derived = '''', scan_result = None, robust_click = (\<lambda>sel. Some (Success (Some 1))),
      latest_tab_clicked = Some 0, protocol_fails = False\<rparr>"

definition missing_env :: act_env where
  "missing_env =
     \<lparr>latest_tab = Some 0, pages_open = 1, close_fails = False, latest_tab_closed = Some 0,
      derived = '''', scan_result = None, robust_click = (\<lambda>sel. Some (Failure NotFound)),
      latest_tab_clicked = Some 0, protocol_fails = False\<rparr>"

definition broken_env :: act_env where
  "broken_env =
     \<lparr>latest_tab = None, pages_open = 1, close_fails = False, latest_tab_closed = None,
      derived = '''', scan_result = None, robust_click = (\<lambda>sel. None),
      latest_tab_clicked = None, protocol_fails = True\<rparr>"

definition example_card_env :: card_env where
  "example_card_env =
     \<lparr>card_tab = Some 0, goto_fails = False, child_envs = (\<lambda>k. missing_env),
      tab_after = Some 0\<rparr>"

text \<open>
  An ABC page on which the completion marker never appears, in a browser that answers
  every call.
\<close>

definition abc_page :: snapshot where
  "abc_page = \<lparr>rw_icon = False, answer_ids = [Some ''a0'', Some ''a1'']\<rparr>"

definition abc_browser :: abc_env where
  "abc_browser =
     \<lparr>options_visible = True, abc_pick = 1, answer_visible = True, answer_clicked = True,
      next_visible = True, next_clicked = True, abc_latest = Some 0, abc_reload = Some abc_page\<rparr>"

text \<open>
  A question with two options and the answer \<^verbatim>\<open>B\<close>: once with both options readable, once
  with the second option never becoming visible.
\<close>

definition question_B :: quizData where
  "question_B =
     \<lparr>maxQuestions = Some 3, correctlyAnswered = Some 0, numberOfOptions = Some 2,
      correctAnswer = ''B''\<rparr>"

definition reads_AB :: "nat \<Rightarrow> option_read" where
  "reads_AB i = (if i = 0 then Attribute (Some ''A'') else Attribute (Some ''B''))"

definition reads_A_only :: "nat \<Rightarrow> option_read" where
  "reads_A_only i = (if i = 0 then Attribute (Some ''A'') else NotVisible)"

text \<open>
  The page of that question: the two options, and a link that \<^verbatim>\<open>findDailyCandidates\<close>
  finds. In \<open>quiz_page_ok\<close> the browser clicks at the first attempt; in \<open>quiz_page_stuck\<close> no
  click strategy works at the first attempt of a call and every later attempt works.
\<close>

definition option_A :: element where
  "option_A =
     \<lparr>matches = [''#rqAnswerOption0''], sheet_display = ''block'', inline_display = None,
      visibility = ''visible'', opacity = 1, position = ''static'', z_index = 0,
      box = \<lparr>r_left = 0, r_top = 0, r_width = 200, r_height = 30\<rparr>,
      hidden_attr = False, hidden_temp = False\<rparr>"

definition option_B :: element where
  "option_B =
     \<lparr>matches = [''#rqAnswerOption1''], sheet_display = ''block'', inline_display = None,
      visibility = ''visible'', opacity = 1, position = ''static'', z_index = 0,
      box = \<lparr>r_left = 0, r_top = 40, r_width = 200, r_height = 30\<rparr>,
      hidden_attr = False, hidden_temp = False\<rparr>"

definition quiz_page_ok :: page_state where
  "quiz_page_ok =
     \<lparr>attempt_answers = (\<lambda>k. responsive), daily_candidates = [''.pointLink''],
      document = [option_A, option_B, daily_link]\<rparr>"

definition quiz_page_stuck :: page_state where
  "quiz_page_stuck =
     \<lparr>attempt_answers = (\<lambda>k. if k = 0 then unresponsive else responsive),
      daily_candidates = [''.pointLink''],
      document = [option_A, option_B, daily_link]\<rparr>"

definition question_env_B :: question_env where
  "question_env_B =
     \<lparr>head_data = Some question_B, branch_data = Some question_B, option_reads = reads_AB,
      click_op = helper_click (\<lambda>sel m. quiz_page_ok),
      refreshed = (\<lambda>i. True),
      tail_data = Some (question_B\<lparr>correctlyAnswered := Some 3\<rparr>)\<rparr>"

definition question_env_hidden :: question_env where
  "question_env_hidden = question_env_B\<lparr>option_reads := reads_A_only\<rparr>"

definition question_env_stuck :: question_env where
  "question_env_stuck = question_env_B\<lparr>click_op := helper_click (\<lambda>sel m. quiz_page_stuck)\<rparr>"


text \<open>
  A browser in which the lookup of the element raises and no click strategy works, and
  a dispatcher browser in which the completion protocol raises.
\<close>

definition raising_lookup :: attempt_env where
  "raising_lookup = unresponsive\<lparr>check_throws := True\<rparr>"

definition failing_protocol_env :: act_env where
  "failing_protocol_env = clicking_env\<lparr>protocol_fails := True\<rparr>"

section \<open>The overlay manager: suppression and restoration\<close>

lemma querySelector_less: "querySelector d sel = Some t \<Longrightarrow> t < length d"
  by (induction d arbitrary: t) (auto split: if_splits)

lemma length_hide_loop: "length (fst (hide_loop blk t i es)) = length es"
  by (induction es arbitrary: i) (auto simp: split_def Let_def)

lemma hide_loop_nth:
  "k < length es \<Longrightarrow>
   fst (hide_loop blk t i es) ! k =
     (if i + k \<noteq> t \<and> blk (es ! k) then hide_and_mark (es ! k) else es ! k)"
proof (induction es arbitrary: i k)
  case Nil
  then show ?case by simp
next
  case (Cons e es)
  show ?case
  proof (cases k)
    case 0
    then show ?thesis by (simp add: split_def Let_def)
  next
    case (Suc k')
    with Cons.prems have "k' < length es" by simp
    from Cons.IH[OF this, of "Suc i"] Suc show ?thesis by (simp add: split_def Let_def)
  qed
qed

lemma hide_loop_none: "snd (hide_loop blk t i es) = 0 \<Longrightarrow> fst (hide_loop blk t i es) = es"
  by (induction es arbitrary: i) (auto simp: split_def Let_def split: if_splits)

lemma length_hideOverlappingOverlays: "length (fst (hideOverlappingOverlays d sel)) = length d"
  by (simp add: hideOverlappingOverlays_def length_hide_loop split: option.splits)

lemma hideOverlappingOverlays_nth:
  "i < length d \<Longrightarrow>
   fst (hideOverlappingOverlays d sel) ! i = d ! i
   \<or> fst (hideOverlappingOverlays d sel) ! i = hide_and_mark (d ! i)"
  by (auto simp: hideOverlappingOverlays_def hide_loop_nth split: option.splits)

lemma visible_unmark_hide_and_mark:
  "inline_display e = None \<Longrightarrow> visible (unmark (hide_and_mark e)) = visible e"
  by (simp add: visible_def css_hidden_def unmark_def hide_and_mark_def computed_display_def)

lemma visible_unmark:
  "hidden_temp e \<longrightarrow> inline_display e = None \<Longrightarrow> visible (unmark e) = visible e"
  by (auto simp: visible_def css_hidden_def unmark_def computed_display_def)

lemma unmark_untagged: "\<not> hidden_temp (unmark e)"
  by (simp add: unmark_def)

text \<open>
  When no element that carries the restoration tag after the suppression (the elements it
  hides and the elements tagged before) had an inline declaration of \<^verbatim>\<open>display\<close>,
  \<^verbatim>\<open>hideOverlappingOverlays\<close> followed by \<^verbatim>\<open>restoreHiddenOverlays\<close> leaves the visible
  elements as they were, for every document and target selector.
\<close>

lemma roundtrip_without_inline_display:
  assumes "tagged_without_inline (fst (hideOverlappingOverlays d sel)) d"
  shows "visible_elements (fst (restoreHiddenOverlays (fst (hideOverlappingOverlays d sel))))
         = visible_elements d"
proof -
  let ?h = "fst (hideOverlappingOverlays d sel)"
  have len: "length ?h = length d"
    by (rule length_hideOverlappingOverlays)
  have tagged: "hidden_temp (?h ! i) \<longrightarrow> inline_display (d ! i) = None" if "i < length d" for i
    using assms that len by (simp add: tagged_without_inline_def list_all2_conv_all_nth)
  have "visible (unmark (?h ! i)) = visible (d ! i)" if i: "i < length d" for i
  proof (cases "?h ! i = d ! i")
    case True
    with tagged[OF i] show ?thesis by (simp add: visible_unmark)
  next
    case False
    with hideOverlappingOverlays_nth[OF i, of sel] have h: "?h ! i = hide_and_mark (d ! i)"
      by simp
    then have "hidden_temp (?h ! i)"
      by (simp add: hide_and_mark_def)
    with tagged[OF i] have "inline_display (d ! i) = None"
      by simp
    with h show ?thesis
      by (simp add: visible_unmark_hide_and_mark)
  qed
  then show ?thesis
    using len by (auto simp: visible_elements_def restoreHiddenOverlays_def intro!: nth_equalityI)
qed

lemma roundtrip_banner:
  "snd (hideOverlappingOverlays [start_button, cookie_banner] ''#rqStartQuiz'') = 1
   \<and> visible_elements
        (fst (restoreHiddenOverlays
               (fst (hideOverlappingOverlays [start_button, cookie_banner] ''#rqStartQuiz''))))
      = visible_elements [start_button, cookie_banner]"
proof -
  have h: "tagged_without_inline
             (fst (hideOverlappingOverlays [start_button, cookie_banner] ''#rqStartQuiz''))
             [start_button, cookie_banner]"
    by (simp add: tagged_without_inline_def hideOverlappingOverlays_def start_button_def
        cookie_banner_def)
  have n: "snd (hideOverlappingOverlays [start_button, cookie_banner] ''#rqStartQuiz'') = 1"
    by (simp add: hideOverlappingOverlays_def start_button_def cookie_banner_def
        overlapping_overlay_def positioned_def overlap_def r_right_def r_bottom_def
        computed_display_def)
  from n roundtrip_without_inline_display[OF h] show ?thesis
    by simp
qed

text \<open>
  C8: the round trip does not keep the visible elements for every document. The dialog of
  the example is visible through its inline \<^verbatim>\<open>display: block\<close> (the style sheet hides it)
  and overlaps the target. \<^verbatim>\<open>hideOverlappingOverlays\<close> hides one element, the dialog, by
  overwriting that inline declaration; \<^verbatim>\<open>restoreHiddenOverlays\<close> restores one element by
  removing the declaration; the dialog, visible before the suppression, is hidden after
  the restoration.
\<close>

theorem C8_roundtrip_loses_inline_display:
  "visible_elements [start_button, opened_dialog] = [False, True]
   \<and> snd (hideOverlappingOverlays [start_button, opened_dialog] ''#rqStartQuiz'') = 1
   \<and> snd (restoreHiddenOverlays
             (fst (hideOverlappingOverlays [start_button, opened_dialog] ''#rqStartQuiz''))) = 1
   \<and> visible_elements
        (fst (restoreHiddenOverlays
               (fst (hideOverlappingOverlays [start_button, opened_dialog] ''#rqStartQuiz''))))
      = [False, False]"
  by (simp add: visible_elements_def restoreHiddenOverlays_def hideOverlappingOverlays_def
      start_button_def opened_dialog_def overlapping_overlay_def positioned_def overlap_def
      r_right_def r_bottom_def hide_and_mark_def unmark_def visible_def css_hidden_def
      computed_display_def)

section \<open>The click executor\<close>

lemma tryOnce_reason:
  "tryOnce env d sel = (Failure r, d') \<Longrightarrow> r \<in> {NotFound, ZeroBoundingBox, CssHidden, ClickFailed}"
  by (auto simp: tryOnce_def click_and_restore_def Let_def
      split: if_splits option.splits prod.splits)

lemma tryOnce_not_found:
  "querySelector d sel = None \<Longrightarrow> \<not> check_throws env \<Longrightarrow> tryOnce env d sel = (Failure NotFound, d)"
  by (simp add: tryOnce_def)

text \<open>
  An attempt of \<^verbatim>\<open>robustTryClickSelector\<close> leaves the document as it was or leaves no
  element tagged: what it hides it restores.
\<close>

lemma tryOnce_restores:
  "tryOnce env d sel = (res, d') \<Longrightarrow> d' = d \<or> (\<forall>e \<in> set d'. \<not> hidden_temp e)"
proof -
  have r: "\<forall>e \<in> set (snd (click_and_restore env x sel)). \<not> hidden_temp e" for x
    by (simp add: click_and_restore_def Let_def restoreHiddenOverlays_def unmark_untagged)
  have z: "snd (hideOverlappingOverlays d sel) = 0 \<Longrightarrow> fst (hideOverlappingOverlays d sel) = d"
    by (auto simp: hideOverlappingOverlays_def hide_loop_none split: option.splits)
  assume "tryOnce env d sel = (res, d')"
  then show ?thesis
    using r[of d] r[of "fst (hideOverlappingOverlays d sel)"] z
    by (auto simp: tryOnce_def Let_def split_def split: if_splits option.splits)
qed

lemma robust_loop_restores:
  "robust_loop envs sel n k d = (res, d', tr) \<Longrightarrow> d' = d \<or> (\<forall>e \<in> set d'. \<not> hidden_temp e)"
proof (induction n arbitrary: k d res d' tr)
  case 0
  then show ?case by simp
next
  case (Suc n)
  obtain r1 d1 where t: "tryOnce (envs k) d sel = (r1, d1)"
    by (cases "tryOnce (envs k) d sel")
  from tryOnce_restores[OF t] have d1: "d1 = d \<or> (\<forall>e \<in> set d1. \<not> hidden_temp e)" .
  obtain f d2 rest where l: "robust_loop envs sel n (Suc k) d1 = (f, d2, rest)"
    by (cases "robust_loop envs sel n (Suc k) d1")
  from Suc.IH[OF l] have d2: "d2 = d1 \<or> (\<forall>e \<in> set d2. \<not> hidden_temp e)" .
  from Suc.prems t l have "d' = d1 \<or> d' = d2"
    by (auto split: outcome.splits if_splits)
  with d1 d2 show ?case by auto
qed

text \<open>
  C1: the claim is right for \<^verbatim>\<open>Workers.robustTryClickSelector\<close> (\<open>robust_loop_restores\<close>)
  and \<^verbatim>\<open>Quiz.clickWithRetries\<close> breaks it. On the page with the hidden start button under
  the banner, in a browser where only the click run in the page works,
  \<^verbatim>\<open>clickWithRetries\<close> returns success and leaves the banner tagged and hidden, while
  \<^verbatim>\<open>robustTryClickSelector\<close> returns the document unchanged.
\<close>

theorem C1_quiz_click_leaves_overlay_hidden:
  "clickWithRetries (\<lambda>k. in_page_click) [] [start_button, cookie_banner] ''#rqStartQuiz'' 3
     = (Success None, [start_button, hide_and_mark cookie_banner],
        [(''#rqStartQuiz'', Success None)])
   \<and> visible cookie_banner
   \<and> \<not> visible (hide_and_mark cookie_banner)
   \<and> hidden_temp (hide_and_mark cookie_banner)
   \<and> robustTryClickSelector (\<lambda>k. in_page_click) [start_button, cookie_banner] ''#rqStartQuiz'' 3
     = (Success None, [start_button, cookie_banner], [Success None])"
proof -
  have three: "(3::nat) = Suc (Suc (Suc 0))" by simp
  have q: "clickWithRetries (\<lambda>k. in_page_click) [] [start_button, cookie_banner] ''#rqStartQuiz'' 3
     = (Success None, [start_button, hide_and_mark cookie_banner],
        [(''#rqStartQuiz'', Success None)])"
    unfolding three
    by (simp add: clickWithRetries_def tryClickOnce_def isVisibleAndClickable_def zero_box_def
        css_hidden_def computed_display_def hideBlockingOverlays_def blocking_overlay_def
        positioned_def overlap_def r_right_def r_bottom_def clickedOk_def first_strategies_def
        in_page_click_def start_button_def cookie_banner_def)
  have v: "visible cookie_banner \<and> \<not> visible (hide_and_mark cookie_banner)
           \<and> hidden_temp (hide_and_mark cookie_banner)"
    by (simp add: visible_def css_hidden_def computed_display_def hide_and_mark_def
        cookie_banner_def)
  have w: "robustTryClickSelector (\<lambda>k. in_page_click) [start_button, cookie_banner] ''#rqStartQuiz'' 3
     = (Success None, [start_button, cookie_banner], [Success None])"
    unfolding three
    by (simp add: robustTryClickSelector_def tryOnce_def zero_box_def css_hidden_def
        computed_display_def hideOverlappingOverlays_def overlapping_overlay_def positioned_def
        overlap_def r_right_def r_bottom_def click_and_restore_def clickedOk_def
        first_strategies_def restoreHiddenOverlays_def unmark_def hide_and_mark_def
        in_page_click_def start_button_def cookie_banner_def)
  from q v w show ?thesis by simp
qed

lemma robust_loop_policy:
  "robust_loop envs sel n k d = (res, d', tr) \<Longrightarrow>
     length tr \<le> n
     \<and> (\<forall>r \<in> set (butlast tr). r = Failure ClickFailed \<or> r = Failure CssHidden)
     \<and> (res = Failure MaxRetries \<longrightarrow>
          length tr = n \<and> (\<forall>r \<in> set tr. r = Failure ClickFailed \<or> r = Failure CssHidden))
     \<and> (res \<noteq> Failure MaxRetries \<longrightarrow>
          tr \<noteq> [] \<and> last tr = res \<and> res \<noteq> Failure ClickFailed \<and> res \<noteq> Failure CssHidden)"
proof (induction n arbitrary: k d res d' tr)
  case 0
  then show ?case by auto
next
  case (Suc n)
  obtain r1 d1 where t: "tryOnce (envs k) d sel = (r1, d1)"
    by (cases "tryOnce (envs k) d sel")
  show ?case
  proof (cases r1)
    case (Success p)
    with Suc.prems t show ?thesis by auto
  next
    case (Failure r')
    from t Failure tryOnce_reason
    have rs: "r' \<in> {NotFound, ZeroBoundingBox, CssHidden, ClickFailed}"
      by blast
    show ?thesis
    proof (cases "transient r'")
      case True
      obtain f d2 rest where l: "robust_loop envs sel n (Suc k) d1 = (f, d2, rest)"
        by (cases "robust_loop envs sel n (Suc k) d1")
      with Suc.prems t Failure True have eq: "res = f" "tr = r1 # rest"
        by auto
      from True rs Failure have r1: "r1 = Failure ClickFailed \<or> r1 = Failure CssHidden"
        by (auto simp: transient_def)
      from Suc.IH[OF l] eq r1 show ?thesis
        by (auto simp: butlast_def split: if_splits)
    next
      case False
      with Suc.prems t Failure have eq: "res = Failure r'" "tr = [r1]"
        by auto
      with False Failure rs show ?thesis
        by (auto simp: transient_def)
    qed
  qed
qed

lemma robust_loop_reason:
  "robust_loop envs sel n k d = (Failure r, d', tr) \<Longrightarrow> r \<in> {NotFound, ZeroBoundingBox, MaxRetries}"
proof (induction n arbitrary: k d d' tr)
  case 0
  then show ?case by simp
next
  case (Suc n)
  obtain res d1 where t: "tryOnce (envs k) d sel = (res, d1)"
    by (cases "tryOnce (envs k) d sel")
  show ?case
  proof (cases res)
    case (Success p)
    with Suc.prems t show ?thesis by simp
  next
    case (Failure r')
    show ?thesis
    proof (cases "transient r'")
      case True
      obtain f d2 rest where l: "robust_loop envs sel n (Suc k) d1 = (f, d2, rest)"
        by (cases "robust_loop envs sel n (Suc k) d1")
      with Suc.prems t Failure True have "f = Failure r"
        by simp
      with Suc.IH l show ?thesis by blast
    next
      case False
      with Suc.prems t Failure have "r = r'"
        by simp
      moreover from t Failure tryOnce_reason
      have "r' \<in> {NotFound, ZeroBoundingBox, CssHidden, ClickFailed}"
        by blast
      ultimately show ?thesis
        using False by (auto simp: transient_def)
    qed
  qed
qed

lemma caller_loop_Some:
  "caller_loop envs sel n k d = (Some res, d', tr) \<Longrightarrow> \<exists>p. res = Success p"
proof (induction n arbitrary: k d d' tr)
  case 0
  then show ?case by simp
next
  case (Suc n)
  then show ?case
    by (auto simp: Let_def split: prod.splits outcome.splits if_splits)
qed

lemma candidate_loop_Some:
  "candidate_loop envs c n k d = (Some res, d', tr) \<Longrightarrow> \<exists>p. res = Success p"
proof (induction n arbitrary: k d d' tr)
  case 0
  then show ?case by simp
next
  case (Suc n)
  then show ?case
    by (auto simp: Let_def split: prod.splits outcome.splits if_splits)
qed

lemma candidates_loop_reason:
  "candidates_loop envs cs m k d = (Failure r, d', tr) \<Longrightarrow> r = MaxRetries"
proof (induction cs arbitrary: k d d' tr)
  case Nil
  then show ?case by simp
next
  case (Cons c cs)
  then show ?case
    by (auto simp: Let_def split: prod.splits option.splits dest: candidate_loop_Some)
qed

lemma clickWithRetries_reason:
  "clickWithRetries envs cands d sel m = (Failure r, d', tr) \<Longrightarrow>
   r = (if cands = [] then NoCandidates else MaxRetries)"
  by (auto simp: clickWithRetries_def Let_def split: prod.splits option.splits if_splits
      dest: caller_loop_Some candidates_loop_reason)

lemma querySelector_matches:
  "map matches d' = map matches d \<Longrightarrow> querySelector d' sel = querySelector d sel"
proof (induction d arbitrary: d')
  case Nil
  then show ?case by simp
next
  case (Cons e es)
  then obtain e' es' where "d' = e' # es'" "matches e' = matches e" "map matches es' = map matches es"
    by (cases d') auto
  with Cons.IH[of es'] show ?case by simp
qed

lemma matches_hide_loop: "map matches (fst (hide_loop blk t i es)) = map matches es"
  by (induction es arbitrary: i) (auto simp: split_def Let_def hide_and_mark_def)

lemma matches_restore: "map matches (fst (restoreHiddenOverlays d)) = map matches d"
  by (induction d) (auto simp: restoreHiddenOverlays_def unmark_def)

lemma matches_hideOverlappingOverlays:
  "map matches (fst (hideOverlappingOverlays d sel)) = map matches d"
  by (simp add: hideOverlappingOverlays_def matches_hide_loop split: option.splits)

lemma matches_click_and_restore:
  "map matches (snd (click_and_restore env d sel)) = map matches d"
  by (simp add: click_and_restore_def Let_def matches_restore)

lemma matches_tryOnce: "map matches (snd (tryOnce env d sel)) = map matches d"
  by (simp add: tryOnce_def matches_click_and_restore Let_def split_def
      matches_hideOverlappingOverlays split: option.splits)

lemma robust_loop_not_found:
  "robust_loop envs sel n k d = (res, d', tr) \<Longrightarrow> querySelector d sel = None \<Longrightarrow>
   j < length tr \<Longrightarrow> \<not> check_throws (envs (k + j)) \<Longrightarrow> tr ! j = Failure NotFound"
proof (induction n arbitrary: k d res d' tr j)
  case 0
  then show ?case by simp
next
  case (Suc n)
  obtain r1 d1 where t: "tryOnce (envs k) d sel = (r1, d1)"
    by (cases "tryOnce (envs k) d sel")
  obtain f d2 rest where l: "robust_loop envs sel n (Suc k) d1 = (f, d2, rest)"
    by (cases "robust_loop envs sel n (Suc k) d1")
  from Suc.prems(1) t l have tr: "tr = [r1] \<or> tr = r1 # rest"
    by (auto split: outcome.splits if_splits)
  show ?case
  proof (cases j)
    case 0
    with Suc.prems(4) have "\<not> check_throws (envs k)" by simp
    with Suc.prems(2) have "tryOnce (envs k) d sel = (Failure NotFound, d)"
      by (intro tryOnce_not_found)
    with t tr 0 show ?thesis by auto
  next
    case (Suc j')
    with tr Suc.prems(3) have eq: "tr = r1 # rest" and j': "j' < length rest"
      by auto
    from matches_tryOnce[of "envs k" d sel] t have "map matches d1 = map matches d"
      by simp
    from querySelector_matches[OF this, of sel] Suc.prems(2) have "querySelector d1 sel = None"
      by simp
    from Suc.IH[OF l this j'] Suc.prems(4) Suc have "rest ! j' = Failure NotFound"
      by simp
    with eq Suc show ?thesis by simp
  qed
qed

text \<open>
  C3, as the spec states it, fails twice. For \<^verbatim>\<open>Quiz.clickWithRetries\<close>: for a selector that
  matches nothing in a page with one heuristic candidate, the first attempt ends with
  \<^verbatim>\<open>not-found\<close>, which is not returned; a second attempt is made on the candidate, and
  the caller gets its success. For \<^verbatim>\<open>Workers.robustTryClickSelector\<close>: when the lookup of
  the element raises in every attempt, the \<^verbatim>\<open>catch\<close> of the visibility block goes on to the
  click strategies, and a locator that matches nothing costs three attempts and gives
  \<^verbatim>\<open>max-retries\<close>.
\<close>

theorem C3_quiz_fallback_counterexample:
  "clickWithRetries (\<lambda>k. responsive) [''.pointLink''] [daily_link] ''#rqAnswerOption1'' 3
     = (Success None, [daily_link],
        [(''#rqAnswerOption1'', Failure NotFound), (''.pointLink'', Success None)])
   \<and> querySelector [daily_link] ''#missing'' = None
   \<and> robustTryClickSelector (\<lambda>k. raising_lookup) [daily_link] ''#missing'' 3
     = (Failure MaxRetries, [daily_link],
        [Failure ClickFailed, Failure ClickFailed, Failure ClickFailed])"
proof -
  have three: "(3::nat) = Suc (Suc (Suc 0))" by simp
  have a: "clickWithRetries (\<lambda>k. responsive) [''.pointLink''] [daily_link] ''#rqAnswerOption1'' 3
     = (Success None, [daily_link],
        [(''#rqAnswerOption1'', Failure NotFound), (''.pointLink'', Success None)])"
    unfolding three
    by (simp add: clickWithRetries_def tryClickOnce_def isVisibleAndClickable_def zero_box_def
        css_hidden_def computed_display_def clickedOk_def first_strategies_def
        responsive_def daily_link_def)
  have b: "robustTryClickSelector (\<lambda>k. raising_lookup) [daily_link] ''#missing'' 3
     = (Failure MaxRetries, [daily_link],
        [Failure ClickFailed, Failure ClickFailed, Failure ClickFailed])"
    unfolding three
    by (simp add: robustTryClickSelector_def tryOnce_def click_and_restore_def clickedOk_def
        first_strategies_def restoreHiddenOverlays_def unmark_def transient_def
        raising_lookup_def unresponsive_def daily_link_def)
  have c: "querySelector [daily_link] ''#missing'' = None"
    by (simp add: daily_link_def)
  from a b c show ?thesis by simp
qed

text \<open>
  C3, amended to \<^verbatim>\<open>Workers.robustTryClickSelector\<close>: at most \<open>maxAttempts\<close> attempts are
  made on the locator; every attempt but the last ended with \<^verbatim>\<open>click-failed\<close> or
  \<^verbatim>\<open>css-hidden\<close>; the result is \<^verbatim>\<open>max-retries\<close> only after \<open>maxAttempts\<close> attempts that all
  ended so; any other result is the result of the last attempt, returned at once. For a
  locator that matches no element, an attempt whose lookup does not raise gives
  \<^verbatim>\<open>not-found\<close> and is the last: the cost is one attempt when the lookup of the first
  attempt does not raise. (An attempt whose lookup raises goes on to the click strategies
  and is retried like any other that ends with \<^verbatim>\<open>click-failed\<close>.)
\<close>

theorem C3_retry_policy:
  assumes "robustTryClickSelector envs d sel maxAttempts = (res, d', tr)"
  shows "length tr \<le> maxAttempts
     \<and> (\<forall>r \<in> set (butlast tr). r = Failure ClickFailed \<or> r = Failure CssHidden)
     \<and> (res = Failure MaxRetries \<longrightarrow>
          length tr = maxAttempts
          \<and> (\<forall>r \<in> set tr. r = Failure ClickFailed \<or> r = Failure CssHidden))
     \<and> (res \<noteq> Failure MaxRetries \<longrightarrow>
          tr \<noteq> [] \<and> last tr = res \<and> res \<noteq> Failure ClickFailed \<and> res \<noteq> Failure CssHidden)
     \<and> (0 < maxAttempts \<and> querySelector d sel = None \<and> \<not> check_throws (envs 0) \<longrightarrow>
          res = Failure NotFound \<and> length tr = 1)
     \<and> (\<forall>j < length tr. querySelector d sel = None \<and> \<not> check_throws (envs j) \<longrightarrow>
          res = Failure NotFound \<and> length tr = Suc j)"
proof -
  from assms have l: "robust_loop envs sel maxAttempts 0 d = (res, d', tr)"
    by (simp add: robustTryClickSelector_def)
  note pol = robust_loop_policy[OF l]
  have nf: "res = Failure NotFound \<and> length tr = 1"
    if "0 < maxAttempts" "querySelector d sel = None" "\<not> check_throws (envs 0)"
  proof -
    from that(1) obtain n where n: "maxAttempts = Suc n"
      by (cases maxAttempts) auto
    from that(2,3) have "tryOnce (envs 0) d sel = (Failure NotFound, d)"
      by (rule tryOnce_not_found)
    with l n show ?thesis
      by (auto simp: transient_def)
  qed
  have later: "res = Failure NotFound \<and> length tr = Suc j"
    if j: "j < length tr" and q: "querySelector d sel = None" and c: "\<not> check_throws (envs j)" for j
  proof -
    from robust_loop_not_found[OF l q j] c have at: "tr ! j = Failure NotFound"
      by simp
    have "\<not> j < length tr - 1"
    proof
      assume "j < length tr - 1"
      then have "tr ! j \<in> set (butlast tr)"
        by (metis length_butlast nth_butlast nth_mem)
      with pol at show False by auto
    qed
    with j have len: "length tr = Suc j" by simp
    with j have lst: "last tr = tr ! j"
      by (metis diff_Suc_1 last_conv_nth length_greater_0_conv zero_less_Suc)
    have "res \<noteq> Failure MaxRetries"
    proof
      assume "res = Failure MaxRetries"
      with pol have "\<forall>r \<in> set tr. r = Failure ClickFailed \<or> r = Failure CssHidden" by simp
      moreover from j have "tr ! j \<in> set tr" by simp
      ultimately show False using at by auto
    qed
    with pol lst at len show ?thesis by simp
  qed
  from pol nf later show ?thesis
    by blast
qed

theorem C3_retry_policy_witness:
  "robustTryClickSelector (\<lambda>k. unresponsive) [daily_link] ''.pointLink'' 3
     = (Failure MaxRetries, [daily_link],
        [Failure ClickFailed, Failure ClickFailed, Failure ClickFailed])
   \<and> length [Failure ClickFailed, Failure ClickFailed, Failure ClickFailed] = (3::nat)
   \<and> robustTryClickSelector (\<lambda>k. responsive) [daily_link] ''#missing'' 3
     = (Failure NotFound, [daily_link], [Failure NotFound])
   \<and> robustTryClickSelector (\<lambda>k. if k = 0 then raising_lookup else responsive) [daily_link]
        ''#missing'' 3
     = (Failure NotFound, [daily_link], [Failure ClickFailed, Failure NotFound])"
proof -
  have three: "(3::nat) = Suc (Suc (Suc 0))" by simp
  have a: "robustTryClickSelector (\<lambda>k. unresponsive) [daily_link] ''.pointLink'' 3
     = (Failure MaxRetries, [daily_link],
        [Failure ClickFailed, Failure ClickFailed, Failure ClickFailed])"
    unfolding three
    by (simp add: robustTryClickSelector_def tryOnce_def zero_box_def css_hidden_def
        computed_display_def click_and_restore_def clickedOk_def first_strategies_def
        restoreHiddenOverlays_def unmark_def transient_def unresponsive_def daily_link_def)
  have b: "robustTryClickSelector (\<lambda>k. responsive) [daily_link] ''#missing'' 3
     = (Failure NotFound, [daily_link], [Failure NotFound])"
    unfolding three
    by (simp add: robustTryClickSelector_def tryOnce_def transient_def responsive_def
        daily_link_def)
  have c: "robustTryClickSelector (\<lambda>k. if k = 0 then raising_lookup else responsive) [daily_link]
        ''#missing'' 3
     = (Failure NotFound, [daily_link], [Failure ClickFailed, Failure NotFound])"
    unfolding three
    by (simp add: robustTryClickSelector_def tryOnce_def click_and_restore_def clickedOk_def
        first_strategies_def restoreHiddenOverlays_def unmark_def transient_def
        raising_lookup_def unresponsive_def responsive_def daily_link_def)
  from C3_retry_policy[OF a, THEN conjunct1]
  have "length [Failure ClickFailed, Failure ClickFailed, Failure ClickFailed] \<le> (3::nat)" .
  with a b c show ?thesis
    by simp
qed

text \<open>
  C4, as the spec states it, fails for \<^verbatim>\<open>Quiz.clickWithRetries\<close>: when the selector matches
  nothing and the heuristic scan finds no candidate, the reason is \<^verbatim>\<open>no-candidates\<close>.
\<close>

theorem C4_no_candidates_counterexample:
  "clickWithRetries (\<lambda>k. responsive) [] [] ''#rqStartQuiz'' 3
     = (Failure NoCandidates, [], [(''#rqStartQuiz'', Failure NotFound)])"
proof -
  have three: "(3::nat) = Suc (Suc (Suc 0))" by simp
  show ?thesis
    unfolding three
    by (simp add: clickWithRetries_def tryClickOnce_def isVisibleAndClickable_def responsive_def)
qed

text \<open>
  C4, amended: a failure of \<^verbatim>\<open>Workers.robustTryClickSelector\<close> carries \<^verbatim>\<open>not-found\<close>,
  \<^verbatim>\<open>zero-bounding-box\<close> or \<^verbatim>\<open>max-retries\<close>, all in the set of the spec; a failure of
  \<^verbatim>\<open>Quiz.clickWithRetries\<close> carries \<^verbatim>\<open>no-candidates\<close> when the heuristic scan found no
  candidate and \<^verbatim>\<open>max-retries\<close> otherwise. So every failure reason is in the set of the
  spec extended by \<^verbatim>\<open>no-candidates\<close>.
\<close>

theorem C4_failure_reasons:
  "(fst (robustTryClickSelector envs d sel maxAttempts) = Failure r \<longrightarrow>
      r \<in> {NotFound, ZeroBoundingBox, MaxRetries})
   \<and> (fst (clickWithRetries envs candidates d sel maxAttempts) = Failure r' \<longrightarrow>
      r' = (if candidates = [] then NoCandidates else MaxRetries))"
proof -
  have "r \<in> {NotFound, ZeroBoundingBox, MaxRetries}"
    if "fst (robustTryClickSelector envs d sel maxAttempts) = Failure r"
  proof -
    from that
    have "robust_loop envs sel maxAttempts 0 d
            = (Failure r, fst (snd (robust_loop envs sel maxAttempts 0 d)),
               snd (snd (robust_loop envs sel maxAttempts 0 d)))"
      by (simp add: robustTryClickSelector_def prod_eq_iff)
    then show ?thesis by (rule robust_loop_reason)
  qed
  moreover have "r' = (if candidates = [] then NoCandidates else MaxRetries)"
    if "fst (clickWithRetries envs candidates d sel maxAttempts) = Failure r'"
  proof -
    from that
    have "clickWithRetries envs candidates d sel maxAttempts
            = (Failure r', fst (snd (clickWithRetries envs candidates d sel maxAttempts)),
               snd (snd (clickWithRetries envs candidates d sel maxAttempts)))"
      by (simp add: prod_eq_iff)
    then show ?thesis by (rule clickWithRetries_reason)
  qed
  ultimately show ?thesis by blast
qed

theorem C4_failure_reasons_witness:
  "fst (robustTryClickSelector (\<lambda>k. unresponsive) [daily_link] ''#missing'' 3) = Failure NotFound
   \<and> fst (clickWithRetries (\<lambda>k. unresponsive) [''.pointLink''] [daily_link] ''#missing'' 3)
       = Failure MaxRetries
   \<and> NotFound \<in> {NotFound, ZeroBoundingBox, MaxRetries}
   \<and> MaxRetries = (if [''.pointLink''] = [] then NoCandidates else MaxRetries)"
proof -
  have three: "(3::nat) = Suc (Suc (Suc 0))" by simp
  have a: "fst (robustTryClickSelector (\<lambda>k. unresponsive) [daily_link] ''#missing'' 3)
             = Failure NotFound"
    unfolding three
    by (simp add: robustTryClickSelector_def tryOnce_def transient_def unresponsive_def
        daily_link_def)
  have b: "fst (clickWithRetries (\<lambda>k. unresponsive) [''.pointLink''] [daily_link] ''#missing'' 3)
             = Failure MaxRetries"
    unfolding three
    by (simp add: clickWithRetries_def tryClickOnce_def isVisibleAndClickable_def zero_box_def
        css_hidden_def computed_display_def clickedOk_def first_strategies_def transient_def
        unresponsive_def daily_link_def)
  from C4_failure_reasons[where envs = "\<lambda>k. unresponsive" and d = "[daily_link]"
      and sel = "''#missing''" and maxAttempts = 3 and r = NotFound
      and candidates = "[''.pointLink'']" and r' = MaxRetries] a b
  show ?thesis by blast
qed

section \<open>The selector candidates\<close>

lemma distinct_push_new: "distinct xs \<Longrightarrow> distinct (push_new xs s)"
  by (simp add: push_new_def)

lemma distinct_foldl_push_new: "distinct acc \<Longrightarrow> distinct (foldl push_new acc xs)"
  by (induction xs arbitrary: acc) (simp_all add: distinct_push_new)

lemma set_foldl_push_new: "set (foldl push_new acc xs) = set acc \<union> set xs"
  by (induction xs arbitrary: acc) (auto simp: push_new_def)

lemma foldl_push_new_disjoint:
  "distinct ys \<Longrightarrow> set ys \<inter> set acc = {} \<Longrightarrow> foldl push_new acc ys = acc @ ys"
  by (induction ys arbitrary: acc) (auto simp: push_new_def)

lemma hd_sel_exact: "hd (sel_exact x) = CHR ''[''"
  by (simp add: sel_exact_def)

lemma hd_scan_element:
  "\<forall>s \<in> set out. hd s = CHR ''['' \<Longrightarrow> \<forall>s \<in> set (scan_element out chain). hd s = CHR ''[''"
  by (auto simp: scan_element_def Let_def push_new_def hd_sel_exact)

lemma hd_foldl_scan_element:
  "\<forall>s \<in> set out. hd s = CHR ''['' \<Longrightarrow> \<forall>s \<in> set (foldl scan_element out els). hd s = CHR ''[''"
proof (induction els arbitrary: out)
  case Nil
  then show ?case by simp
next
  case (Cons c els)
  from Cons.prems have "\<forall>s \<in> set (scan_element out c). hd s = CHR ''[''"
    by (rule hd_scan_element)
  then show ?case
    using Cons.IH by simp
qed

lemma hd_specific_candidates:
  assumes "s \<in> set (case scan of None \<Rightarrow> c2 | Some cs \<Rightarrow> foldl push_new c2 (heuristic_scan cs))"
    and "\<forall>x \<in> set c2. hd x = CHR ''[''"
  shows "hd s = CHR ''[''"
  using assms hd_foldl_scan_element[of "[]"]
  by (auto simp: set_foldl_push_new heuristic_scan_def split: option.splits)

text \<open>
  C9: for every activity and every result of the heuristic scan (also a scan that raised),
  the list that \<^verbatim>\<open>buildSelectorsForActivity\<close> returns is not empty, has no duplicates, and
  ends with the two generic fallback selectors.
\<close>

theorem C9_selectors_nonempty_distinct:
  "buildSelectorsForActivity scan a \<noteq> []
   \<and> distinct (buildSelectorsForActivity scan a)
   \<and> (\<exists>specific. buildSelectorsForActivity scan a = specific @ [pointLink, ''.pointLink''])"
proof -
  define c2 where "c2 =
    (if offerId a \<noteq> [] then [sel_prefix (offerId a), sel_prefix (escape_quotes (offerId a))]
     else [])
    @ (if name a \<noteq> []
       then [sel_prefix (escape_quotes (name a)), sel_substring (escape_quotes (name a))]
       else [])"
  define c3 where "c3 = (case scan of None \<Rightarrow> c2 | Some cs \<Rightarrow> foldl push_new c2 (heuristic_scan cs))"
  have b: "buildSelectorsForActivity scan a = foldl push_new [] (c3 @ [pointLink, ''.pointLink''])"
    unfolding buildSelectorsForActivity_def array_from_set_def Let_def c3_def c2_def
    by (rule refl)
  have "\<forall>x \<in> set c2. hd x = CHR ''[''"
    by (auto simp: c2_def sel_prefix_def sel_substring_def)
  then have h: "\<forall>s \<in> set c3. hd s = CHR ''[''"
    using hd_specific_candidates unfolding c3_def by blast
  have "set [pointLink, ''.pointLink''] \<inter> set c3 = {}"
    using h by (auto simp: pointLink_def)
  moreover have "distinct [pointLink, ''.pointLink'']"
    by (simp add: pointLink_def)
  ultimately have "foldl push_new (foldl push_new [] c3) [pointLink, ''.pointLink'']
                    = foldl push_new [] c3 @ [pointLink, ''.pointLink'']"
    by (intro foldl_push_new_disjoint) (auto simp: set_foldl_push_new)
  then have "foldl push_new [] (c3 @ [pointLink, ''.pointLink''])
              = foldl push_new [] c3 @ [pointLink, ''.pointLink'']"
    by (simp only: foldl_append)
  with b have e: "buildSelectorsForActivity scan a
                   = foldl push_new [] c3 @ [pointLink, ''.pointLink'']"
    by simp
  have "distinct (buildSelectorsForActivity scan a)"
    unfolding b by (rule distinct_foldl_push_new) simp
  with e show ?thesis by auto
qed

theorem C9_selectors_witness:
  "buildSelectorsForActivity None punch_child
     = [sel_prefix ''c1'', pointLink, ''.pointLink'']
   \<and> distinct (buildSelectorsForActivity None punch_child)"
proof -
  have "buildSelectorsForActivity None punch_child = [sel_prefix ''c1'', pointLink, ''.pointLink'']"
    by (simp add: buildSelectorsForActivity_def array_from_set_def push_new_def punch_child_def
        escape_quotes_def dquote_def sel_prefix_def pointLink_def)
  with C9_selectors_nonempty_distinct[of None punch_child] show ?thesis
    by simp
qed

section \<open>The dispatcher\<close>

lemma subject_solveActivities: "map subject (solveActivities envs k p acts punch) = acts"
  by (induction acts arbitrary: k p)
    (auto simp: solve_activity_def Let_def split: prod.splits bool.splits clicked.splits option.splits)

lemma subject_punch_loop:
  "e \<in> set (fst (punch_loop cenvs k cards)) \<Longrightarrow>
   \<exists>c \<in> set cards. subject e \<in> set (childPromotions c) \<and> \<not> complete (subject e)"
proof (induction cards arbitrary: k e)
  case Nil
  then show ?case by simp
next
  case (Cons c cards)
  let ?sub = "solveActivities (child_envs (cenvs k)) 0 (the (card_tab (cenvs k)))
                (filter (\<lambda>x. \<not> complete x) (childPromotions c)) True"
  from Cons.prems
  have "e \<in> set (fst (punch_loop cenvs (Suc k) cards)) \<or> e \<in> set ?sub"
    by (auto simp: Let_def split: if_splits option.splits prod.splits)
  then show ?case
  proof
    assume "e \<in> set (fst (punch_loop cenvs (Suc k) cards))"
    from Cons.IH[OF this] show ?thesis by auto
  next
    assume "e \<in> set ?sub"
    then have "subject e \<in> set (map subject ?sub)"
      by auto
    then have "subject e \<in> set (filter (\<lambda>x. \<not> complete x) (childPromotions c))"
      by (simp only: subject_solveActivities)
    then show ?thesis by auto
  qed
qed

text \<open>
  C2, as the spec states it, fails for the punch cards: the child of an open punch card
  with \<^verbatim>\<open>complete = false\<close> and \<^verbatim>\<open>pointProgressMax = 0\<close> is passed to \<^verbatim>\<open>solveActivities\<close>,
  which builds its selectors and tries three of them.
\<close>

theorem C2_punch_card_counterexample:
  "map subject (fst (doPunchCard (\<lambda>k. example_card_env) example_data)) = [punch_child]
   \<and> pointProgressMax punch_child = 0
   \<and> map act_result (fst (doPunchCard (\<lambda>k. example_card_env) example_data)) = [Skipped 3]"
  by (simp add: doPunchCard_def example_data_def example_card_env_def punch_parent_def
      punch_child_def missing_env_def solve_activity_def reselect_def candidate_selectors_def
      buildSelectorsForActivity_def array_from_set_def push_new_def escape_quotes_def
      dquote_def sel_prefix_def pointLink_def)

text \<open>
  C2, amended: \<^verbatim>\<open>doDailySet\<close> and \<^verbatim>\<open>doMorePromotions\<close> attempt resolution and clicking only
  for records with \<^verbatim>\<open>complete\<close> false and \<^verbatim>\<open>pointProgressMax > 0\<close>; \<^verbatim>\<open>doPunchCard\<close> attempts
  them only for child records with \<^verbatim>\<open>complete\<close> false (it does not read
  \<^verbatim>\<open>pointProgressMax\<close>). The log has one entry for every record the dispatcher attempts.
\<close>

theorem C2_dispatch_prefilter:
  "(\<forall>e \<in> set (doDailySet envs today p data).
       \<not> complete (subject e) \<and> pointProgressMax (subject e) > 0)
   \<and> (\<forall>e \<in> set (doMorePromotions envs tab data).
       \<not> complete (subject e) \<and> pointProgressMax (subject e) > 0)
   \<and> (\<forall>e \<in> set (fst (doPunchCard cenvs data)). \<not> complete (subject e))"
proof -
  have sub: "subject e \<in> set acts" if "e \<in> set (solveActivities es k q acts punch)"
    for e es k q acts punch
  proof -
    from that have "subject e \<in> set (map subject (solveActivities es k q acts punch))"
      by auto
    then show ?thesis
      by (simp only: subject_solveActivities)
  qed
  have daily: "\<not> complete (subject e) \<and> pointProgressMax (subject e) > 0"
    if "e \<in> set (doDailySet envs today p data)" for e
    using that by (auto simp: doDailySet_def Let_def split: option.splits if_splits dest!: sub)
  have more: "\<not> complete (subject e) \<and> pointProgressMax (subject e) > 0"
    if "e \<in> set (doMorePromotions envs tab data)" for e
    using that
    by (auto simp: doMorePromotions_def Let_def split: option.splits if_splits dest!: sub)
  have punch: "\<not> complete (subject e)" if "e \<in> set (fst (doPunchCard cenvs data))" for e
    using that by (auto simp: doPunchCard_def Let_def split: if_splits dest!: subject_punch_loop)
  from daily more punch show ?thesis by blast
qed

theorem C2_dispatch_prefilter_witness:
  "map subject (doDailySet (\<lambda>k. clicking_env) ''11/02/2026'' 0 example_data) = [poll_activity]
   \<and> map subject (doMorePromotions (\<lambda>k. clicking_env) (Some 0) example_data) = [poll_activity]
   \<and> map subject (fst (doPunchCard (\<lambda>k. example_card_env) example_data)) = [punch_child]
   \<and> \<not> complete poll_activity \<and> pointProgressMax poll_activity > 0
   \<and> \<not> complete punch_child"
proof -
  have a: "map subject (doDailySet (\<lambda>k. clicking_env) ''11/02/2026'' 0 example_data)
            = [poll_activity]"
    by (simp add: doDailySet_def example_data_def poll_activity_def done_activity_def
        subject_solveActivities del: solveActivities.simps)
  have b: "map subject (doMorePromotions (\<lambda>k. clicking_env) (Some 0) example_data)
            = [poll_activity]"
    by (simp add: doMorePromotions_def example_data_def poll_activity_def done_activity_def
        subject_solveActivities del: solveActivities.simps)
  have c: "map subject (fst (doPunchCard (\<lambda>k. example_card_env) example_data)) = [punch_child]"
    by (simp add: doPunchCard_def example_data_def example_card_env_def punch_parent_def
        punch_child_def split_def Let_def subject_solveActivities del: solveActivities.simps)
  from a obtain e where e: "e \<in> set (doDailySet (\<lambda>k. clicking_env) ''11/02/2026'' 0 example_data)"
    "subject e = poll_activity"
    by (cases "doDailySet (\<lambda>k. clicking_env) ''11/02/2026'' 0 example_data") auto
  from c obtain e' where e': "e' \<in> set (fst (doPunchCard (\<lambda>k. example_card_env) example_data))"
    "subject e' = punch_child"
    by (cases "fst (doPunchCard (\<lambda>k. example_card_env) example_data)") auto
  from C2_dispatch_prefilter[of "\<lambda>k. clicking_env" "''11/02/2026''" 0 example_data
      "Some 0" "\<lambda>k. example_card_env"] e e'
  have "\<not> complete poll_activity \<and> pointProgressMax poll_activity > 0 \<and> \<not> complete punch_child"
    by auto
  with a b c show ?thesis by simp
qed

lemma entry_page_independent:
  "fst (solve_activity env q a punch) = fst (solve_activity env q' a punch)"
  by (simp add: solve_activity_def reselect_def split: option.splits clicked.splits prod.splits)

lemma solveActivities_page_independent:
  "solveActivities envs k p acts punch = solveActivities envs k q acts punch"
proof (induction acts arbitrary: k p q)
  case Nil
  show ?case by simp
next
  case (Cons a acts)
  have "fst (solve_activity (envs k) p a punch) = fst (solve_activity (envs k) q a punch)"
    by (rule entry_page_independent)
  moreover have "solveActivities envs (Suc k) (snd (solve_activity (envs k) p a punch)) acts punch
      = solveActivities envs (Suc k) (snd (solve_activity (envs k) q a punch)) acts punch"
    by (rule Cons.IH)
  ultimately show ?case
    by (simp add: split_def Let_def)
qed

lemma length_solveActivities: "length (solveActivities envs k p acts punch) = length acts"
  by (induction acts arbitrary: k p) (auto simp: split_def Let_def)

lemma solveActivities_nth:
  "i < length acts \<Longrightarrow>
   solveActivities envs k p acts punch ! i = fst (solve_activity (envs (k + i)) q (acts ! i) punch)"
proof (induction acts arbitrary: k p i)
  case Nil
  then show ?case by simp
next
  case (Cons a acts)
  show ?case
  proof (cases i)
    case 0
    have "fst (solve_activity (envs k) p a punch) = fst (solve_activity (envs k) q a punch)"
      by (rule entry_page_independent)
    with 0 show ?thesis by (simp add: split_def Let_def)
  next
    case (Suc j)
    with Cons.prems have "j < length acts" by simp
    from Cons.IH[OF this, of "Suc k" "snd (solve_activity (envs k) p a punch)"] Suc
    show ?thesis by (simp add: split_def Let_def)
  qed
qed

lemma solveActivities_drop:
  "drop n (solveActivities envs k p acts punch) = solveActivities envs (k + n) q (drop n acts) punch"
proof (induction acts arbitrary: k p n)
  case Nil
  show ?case by simp
next
  case (Cons a acts)
  show ?case
  proof (cases n)
    case 0
    then show ?thesis
      using solveActivities_page_independent[of envs k p "a # acts" punch q] by simp
  next
    case (Suc m)
    from Cons.IH[of m "Suc k" "snd (solve_activity (envs k) p a punch)"] Suc
    show ?thesis by (simp add: split_def Let_def)
  qed
qed

text \<open>
  C7: \<^verbatim>\<open>solveActivities\<close> returns for every list, every punch card flag and every browser.
  Its log has one entry per activity, in list order, and entry \<open>i\<close> is what the body of
  the loop computes for activity \<open>i\<close> from the answers of the browser during iteration
  \<open>i\<close> alone: it depends neither on the page handed over nor on how the activities before
  it ended, with an error (any call of the iteration raising, the protocol included), with
  no candidate clicked, or completed. After every activity the rest of the log is the log
  of the dispatcher run on the rest of the list: no outcome ends the loop.
\<close>

theorem C7_dispatcher_continues:
  "length (solveActivities envs k p acts punch) = length acts
   \<and> map subject (solveActivities envs k p acts punch) = acts
   \<and> (\<forall>i < length acts.
        solveActivities envs k p acts punch ! i
          = fst (solve_activity (envs (k + i)) q (acts ! i) punch)
        \<and> drop (Suc i) (solveActivities envs k p acts punch)
          = solveActivities envs (k + Suc i) q (drop (Suc i) acts) punch)"
proof -
  have "solveActivities envs k p acts punch ! i
          = fst (solve_activity (envs (k + i)) q (acts ! i) punch)" if "i < length acts" for i
    using that by (rule solveActivities_nth)
  moreover have "drop (Suc i) (solveActivities envs k p acts punch)
          = solveActivities envs (k + Suc i) q (drop (Suc i) acts) punch" for i
    by (rule solveActivities_drop)
  ultimately show ?thesis
    using length_solveActivities[of envs k p acts punch]
      subject_solveActivities[of envs k p acts punch]
    by blast
qed

theorem C7_dispatcher_continues_witness:
  "map act_result
     (solveActivities
        (\<lambda>k. if k = 0 then failing_protocol_env else if k = 1 then broken_env
              else if k = 2 then missing_env else clicking_env)
        0 0 [poll_activity, punch_child, punch_child, poll_activity] False)
     = [Errored, Errored, Skipped 3, Completed Poll 1]
   \<and> act_result (fst (solve_activity failing_protocol_env 0 poll_activity False)) = Errored
   \<and> act_result (fst (solve_activity clicking_env 0 poll_activity False)) = Completed Poll 1
   \<and> length
     (solveActivities
        (\<lambda>k. if k = 0 then failing_protocol_env else if k = 1 then broken_env
              else if k = 2 then missing_env else clicking_env)
        0 0 [poll_activity, punch_child, punch_child, poll_activity] False) = 4"
proof -
  let ?envs = "\<lambda>k::nat. if k = 0 then failing_protocol_env else if k = 1 then broken_env
              else if k = 2 then missing_env else clicking_env"
  have a: "map act_result
     (solveActivities ?envs 0 0 [poll_activity, punch_child, punch_child, poll_activity] False)
     = [Errored, Errored, Skipped 3, Completed Poll 1]"
    by code_simp
  have b: "act_result (fst (solve_activity failing_protocol_env 0 poll_activity False)) = Errored"
    by code_simp
  have c: "act_result (fst (solve_activity clicking_env 0 poll_activity False)) = Completed Poll 1"
    by code_simp
  from C7_dispatcher_continues[of ?envs 0 0
      "[poll_activity, punch_child, punch_child, poll_activity]" False, THEN conjunct1]
  have "length
     (solveActivities ?envs 0 0 [poll_activity, punch_child, punch_child, poll_activity] False)
     = 4"
    by simp
  with a b c show ?thesis by simp
qed

section \<open>The completion protocols\<close>

lemma abc_loop_iterations: "i \<le> 15 \<Longrightarrow> iterations (abc_loop envs i p s cl) \<le> 15"
proof (induction envs i p s cl rule: abc_loop.induct)
  case (1 envs i p s cl)
  show ?case
  proof (cases "i < 15 \<and> \<not> rw_icon s")
    case False
    then have "abc_loop envs i p s cl
                = \<lparr>raised = False, iterations = i, current_page = p, clicked_so_far = cl\<rparr>"
      by (subst abc_loop.simps) auto
    with "1.prems" show ?thesis by simp
  next
    case True
    then have "Suc i \<le> 15" by simp
    with True "1.IH" show ?thesis
      by (subst abc_loop.simps) (auto split: option.splits prod.splits)
  qed
qed

lemma abc_loop_raised: "raised (abc_loop envs i p s cl) \<Longrightarrow> iterations (abc_loop envs i p s cl) < 15"
proof (induction envs i p s cl rule: abc_loop.induct)
  case (1 envs i p s cl)
  show ?case
  proof (cases "i < 15 \<and> \<not> rw_icon s")
    case False
    then have "abc_loop envs i p s cl
                = \<lparr>raised = False, iterations = i, current_page = p, clicked_so_far = cl\<rparr>"
      by (subst abc_loop.simps) auto
    with "1.prems" show ?thesis by simp
  next
    case True
    from "1.prems" True "1.IH" show ?thesis
      by (subst abc_loop.simps, subst (asm) abc_loop.simps)
        (auto split: option.splits prod.splits if_splits)
  qed
qed

lemma abc_loop_at_cap:
  "never_completes envs \<Longrightarrow> \<not> rw_icon s \<Longrightarrow> i \<le> 15 \<Longrightarrow>
   iterations (abc_loop envs i p s cl) = 15 \<and> \<not> raised (abc_loop envs i p s cl)"
proof (induction "15 - i" arbitrary: i p s cl)
  case 0
  then have "abc_loop envs i p s cl
              = \<lparr>raised = False, iterations = i, current_page = p, clicked_so_far = cl\<rparr>"
    by (subst abc_loop.simps) auto
  with 0 show ?case by simp
next
  case (Suc n)
  then have i: "i < 15" and n: "n = 15 - Suc i" and le: "Suc i \<le> 15"
    by auto
  from Suc.prems(1) obtain q s' where env:
    "options_visible (envs i)" "answer_visible (envs i)" "answer_clicked (envs i)"
    "next_visible (envs i)" "next_clicked (envs i)"
    "abc_latest (envs i) = Some q" "abc_reload (envs i) = Some s'" "\<not> rw_icon s'"
    by (auto simp: never_completes_def split: option.splits)
  then have r: "abc_refresh (envs i) p = (q, Some s')"
    by (simp add: abc_refresh_def)
  have ih: "iterations (abc_loop envs (Suc i) q s' cl') = 15
      \<and> \<not> raised (abc_loop envs (Suc i) q s' cl')" for cl'
    using Suc.hyps(1)[OF n Suc.prems(1) env(8) le] .
  define c where "c = (if answer_ids s = [] then None else chosen_answer s (abc_pick (envs i)))"
  have "abc_loop envs i p s cl
      = abc_loop envs (Suc i) q s'
          (case c of None \<Rightarrow> cl | Some a \<Rightarrow> cl @ [''#'' @ a, ''div.wk_button''])"
    using i Suc.prems(2) env(1-5) r
    by (subst abc_loop.simps) (simp add: c_def split: option.splits)
  with ih show ?case
    by simp
qed

text \<open>
  C6, as the spec states it, fails: on a page whose completion marker never appears, in a
  browser that answers every call of the loop but rejects the final \<^verbatim>\<open>page.close()\<close>, the
  loop stops at the cap of 15 and \<^verbatim>\<open>doABC\<close> reports the error of its \<^verbatim>\<open>catch\<close> block, not
  the warning.
\<close>

theorem C6_close_rejects_counterexample:
  "snd (doABC (\<lambda>i. abc_browser) (Some abc_page) True 0) = 15
   \<and> report (fst (doABC (\<lambda>i. abc_browser) (Some abc_page) True 0)) = ErrorOccurred"
  by code_simp

text \<open>
  C6, amended: for every browser and page, \<^verbatim>\<open>doABC\<close> returns with at most 15 passes
  through its loop (the model of the loop is a total function) and raises nothing. When
  the loop stops at the cap of 15, the report is the warning
  \<^verbatim>\<open>Failed to solve quiz, exceeded max iterations of 15\<close> if the final \<^verbatim>\<open>page.close()\<close> resolves,
  and the error of the \<^verbatim>\<open>catch\<close> block if it rejects; the warning is given only at the cap.
  The cap is reached whenever the first load succeeds without the completion marker and
  every iteration finds its elements, clicks them and reloads a page without the marker;
  a first load that shows the marker gives no pass at all.
\<close>

theorem C6_abc_iteration_cap:
  "snd (doABC envs first_load close_rejects p) \<le> 15
   \<and> (snd (doABC envs first_load close_rejects p) = 15 \<longrightarrow>
        report (fst (doABC envs first_load close_rejects p))
          = (if close_rejects then ErrorOccurred else FailedToSolve))
   \<and> (report (fst (doABC envs first_load close_rejects p)) = FailedToSolve \<longrightarrow>
        snd (doABC envs first_load close_rejects p) = 15 \<and> \<not> close_rejects)
   \<and> (\<forall>s. first_load = Some s \<and> \<not> rw_icon s \<and> never_completes envs \<longrightarrow>
        snd (doABC envs first_load close_rejects p) = 15)
   \<and> (\<forall>s. first_load = Some s \<and> rw_icon s \<longrightarrow>
        snd (doABC envs first_load close_rejects p) = 0)"
proof (cases first_load)
  case None
  then show ?thesis by (simp add: doABC_def)
next
  case (Some s)
  define st where "st = abc_loop envs 0 p s []"
  have n: "snd (doABC envs first_load close_rejects p) = iterations st"
    by (simp add: doABC_def Some Let_def st_def)
  have rep: "report (fst (doABC envs first_load close_rejects p))
      = (if raised st \<or> close_rejects then ErrorOccurred
         else if iterations st = 15 then FailedToSolve else CompletedOk)"
    by (simp add: doABC_def Some Let_def st_def)
  have le: "iterations st \<le> 15"
    unfolding st_def by (rule abc_loop_iterations) simp
  have r: "iterations st < 15" if "raised st"
    using that unfolding st_def by (rule abc_loop_raised)
  have cap: "iterations st = 15" if "\<not> rw_icon s" "never_completes envs"
    using abc_loop_at_cap[OF that(2) that(1), of 0 p "[]"] by (simp add: st_def)
  have none: "iterations st = 0" if "rw_icon s"
    unfolding st_def using that by (subst abc_loop.simps) simp
  have a: "snd (doABC envs first_load close_rejects p) \<le> 15"
    using n le by simp
  have b: "report (fst (doABC envs first_load close_rejects p))
          = (if close_rejects then ErrorOccurred else FailedToSolve)"
    if "snd (doABC envs first_load close_rejects p) = 15"
  proof -
    from that n have "iterations st = 15" by simp
    moreover from this r have "\<not> raised st" by auto
    ultimately show ?thesis by (simp add: rep)
  qed
  have c: "snd (doABC envs first_load close_rejects p) = 15 \<and> \<not> close_rejects"
    if "report (fst (doABC envs first_load close_rejects p)) = FailedToSolve"
    using that unfolding rep n by (simp split: if_splits)
  have d: "snd (doABC envs first_load close_rejects p) = 15"
    if "first_load = Some s'" "\<not> rw_icon s'" "never_completes envs" for s'
    using that Some cap n by simp
  have e: "snd (doABC envs first_load close_rejects p) = 0"
    if "first_load = Some s'" "rw_icon s'" for s'
    using that Some none n by simp
  show ?thesis
  proof (intro conjI allI impI)
    show "snd (doABC envs first_load close_rejects p) \<le> 15" by (rule a)
  next
    assume "snd (doABC envs first_load close_rejects p) = 15"
    then show "report (fst (doABC envs first_load close_rejects p))
          = (if close_rejects then ErrorOccurred else FailedToSolve)" by (rule b)
  next
    assume "report (fst (doABC envs first_load close_rejects p)) = FailedToSolve"
    then show "snd (doABC envs first_load close_rejects p) = 15" by (rule c[THEN conjunct1])
  next
    assume "report (fst (doABC envs first_load close_rejects p)) = FailedToSolve"
    then show "\<not> close_rejects" by (rule c[THEN conjunct2])
  next
    fix s' assume "first_load = Some s' \<and> \<not> rw_icon s' \<and> never_completes envs"
    then show "snd (doABC envs first_load close_rejects p) = 15" using d by simp
  next
    fix s' assume "first_load = Some s' \<and> rw_icon s'"
    then show "snd (doABC envs first_load close_rejects p) = 0" using e by simp
  qed
qed

theorem C6_abc_iteration_cap_witness:
  "snd (doABC (\<lambda>i. abc_browser) (Some abc_page) False 0) = 15
   \<and> report (fst (doABC (\<lambda>i. abc_browser) (Some abc_page) False 0)) = FailedToSolve
   \<and> never_completes (\<lambda>i. abc_browser)
   \<and> rw_icon abc_page = False"
proof -
  have n: "never_completes (\<lambda>i. abc_browser)"
    by (simp add: never_completes_def abc_browser_def abc_page_def)
  have m: "rw_icon abc_page = False"
    by (simp add: abc_page_def)
  note cap = C6_abc_iteration_cap[of "\<lambda>i. abc_browser" "Some abc_page" False 0]
  from cap n m have a: "snd (doABC (\<lambda>i. abc_browser) (Some abc_page) False 0) = 15"
    by blast
  with cap have "report (fst (doABC (\<lambda>i. abc_browser) (Some abc_page) False 0)) = FailedToSolve"
    by simp
  with a n m show ?thesis
    by simp
qed

lemma one_landing_append:
  "\<forall>a \<in> set tr. \<not> landed a \<Longrightarrow> one_landing res rest \<Longrightarrow> one_landing res (tr @ rest)"
  by (cases "rest = []")
    (auto simp: one_landing_def butlast_append dest: in_set_butlastD split: outcome.splits)

lemma one_landing_Cons:
  "\<not> landed a \<Longrightarrow> one_landing res rest \<Longrightarrow> one_landing res (a # rest)"
  using one_landing_append[of "[a]" res rest] by simp

lemma one_landing_single: "one_landing (Success pop) [(sel, Success pop)]"
  by (simp add: one_landing_def)

lemma one_landing_failure:
  "\<forall>a \<in> set tr. \<not> landed a \<Longrightarrow> one_landing (Failure r) tr"
  by (auto simp: one_landing_def dest: in_set_butlastD)

lemma caller_loop_landing:
  "caller_loop envs sel n k d = (r, d', tr) \<Longrightarrow>
   (\<forall>a \<in> set tr. fst a = sel)
   \<and> (case r of Some res \<Rightarrow> (\<exists>pop. res = Success pop) \<and> one_landing res tr
               | None \<Rightarrow> \<forall>a \<in> set tr. \<not> landed a)"
proof (induction n arbitrary: k d r d' tr)
  case 0
  then show ?case by simp
next
  case (Suc n)
  obtain r1 d1 where t: "tryClickOnce (envs k) d sel = (r1, d1)"
    by (cases "tryClickOnce (envs k) d sel")
  obtain f d2 rest where l: "caller_loop envs sel n (Suc k) d1 = (f, d2, rest)"
    by (cases "caller_loop envs sel n (Suc k) d1")
  note ih = Suc.IH[OF l]
  show ?case
  proof (cases r1)
    case (Success pop)
    with Suc.prems t show ?thesis
      by (auto simp: one_landing_def)
  next
    case (Failure x)
    then have nl: "\<not> landed (sel, r1)" by (simp add: landed_def)
    show ?thesis
    proof (cases "x = CssHidden \<or> x = VisibilityCheckError")
      case True
      with Suc.prems t l Failure have eq: "r = f" "tr = (sel, r1) # rest"
        by auto
      from ih nl show ?thesis
        unfolding eq by (cases f) (auto intro: one_landing_Cons)
    next
      case False
      with Suc.prems t Failure have "r = None" "tr = [(sel, r1)]"
        by auto
      with nl show ?thesis by simp
    qed
  qed
qed

lemma candidate_loop_landing:
  "candidate_loop envs c n k d = (r, d', tr) \<Longrightarrow>
   (\<forall>a \<in> set tr. fst a = c)
   \<and> (case r of Some res \<Rightarrow> (\<exists>pop. res = Success pop) \<and> one_landing res tr
               | None \<Rightarrow> \<forall>a \<in> set tr. \<not> landed a)"
proof (induction n arbitrary: k d r d' tr)
  case 0
  then show ?case by simp
next
  case (Suc n)
  obtain r1 d1 where t: "tryClickOnce (envs k) d c = (r1, d1)"
    by (cases "tryClickOnce (envs k) d c")
  obtain f d2 rest where l: "candidate_loop envs c n (Suc k) d1 = (f, d2, rest)"
    by (cases "candidate_loop envs c n (Suc k) d1")
  note ih = Suc.IH[OF l]
  show ?case
  proof (cases r1)
    case (Success pop)
    with Suc.prems t show ?thesis
      by (auto simp: one_landing_def)
  next
    case (Failure x)
    then have nl: "\<not> landed (c, r1)" by (simp add: landed_def)
    show ?thesis
    proof (cases "transient x")
      case True
      with Suc.prems t l Failure have eq: "r = f" "tr = (c, r1) # rest"
        by auto
      from ih nl show ?thesis
        unfolding eq by (cases f) (auto intro: one_landing_Cons)
    next
      case False
      with Suc.prems t Failure have "r = None" "tr = [(c, r1)]"
        by auto
      with nl show ?thesis by simp
    qed
  qed
qed

lemma candidates_loop_landing:
  "candidates_loop envs cs m k d = (res, d', tr) \<Longrightarrow>
   (\<forall>a \<in> set tr. fst a \<in> set cs) \<and> one_landing res tr"
proof (induction cs arbitrary: k d res d' tr)
  case Nil
  then show ?case by (auto simp: one_landing_def)
next
  case (Cons c cs)
  obtain r1 d1 tr1 where t: "candidate_loop envs c m k d = (r1, d1, tr1)"
    by (cases "candidate_loop envs c m k d") auto
  obtain f d2 rest where l: "candidates_loop envs cs m (k + length tr1) d1 = (f, d2, rest)"
    by (cases "candidates_loop envs cs m (k + length tr1) d1") auto
  note c = candidate_loop_landing[OF t]
  note ih = Cons.IH[OF l]
  show ?case
  proof (cases r1)
    case None
    with Cons.prems t l have eq: "res = f" "tr = tr1 @ rest"
      by auto
    from c None have nl: "\<forall>a \<in> set tr1. \<not> landed a" by simp
    from one_landing_append[OF nl] ih have "one_landing f (tr1 @ rest)" by simp
    with c ih show ?thesis
      unfolding eq by auto
  next
    case (Some x)
    with Cons.prems t have eq: "res = x" "tr = tr1"
      by auto
    from c Some show ?thesis
      unfolding eq by auto
  qed
qed

lemma clickWithRetries_landing:
  "clickWithRetries envs cs d sel m = (res, d', tr) \<Longrightarrow>
   (\<forall>a \<in> set tr. fst a = sel \<or> fst a \<in> set cs) \<and> one_landing res tr"
proof -
  assume a: "clickWithRetries envs cs d sel m = (res, d', tr)"
  obtain r1 d1 tr1 where t: "caller_loop envs sel m 0 d = (r1, d1, tr1)"
    by (cases "caller_loop envs sel m 0 d") auto
  obtain f d2 rest where l: "candidates_loop envs cs m (length tr1) d1 = (f, d2, rest)"
    by (cases "candidates_loop envs cs m (length tr1) d1") auto
  note c = caller_loop_landing[OF t]
  note cl = candidates_loop_landing[OF l]
  show ?thesis
  proof (cases r1)
    case (Some x)
    with a t have eq: "res = x" "tr = tr1"
      by (auto simp: clickWithRetries_def)
    from c Some show ?thesis
      unfolding eq by auto
  next
    case None
    with c have nl: "\<forall>a \<in> set tr1. \<not> landed a" by simp
    show ?thesis
    proof (cases "cs = []")
      case True
      with a t None have eq: "res = Failure NoCandidates" "tr = tr1"
        by (auto simp: clickWithRetries_def)
      from c one_landing_failure[OF nl] show ?thesis
        unfolding eq by auto
    next
      case False
      with a t l None have eq: "res = f" "tr = tr1 @ rest"
        by (auto simp: clickWithRetries_def)
      from one_landing_append[OF nl] cl have "one_landing f (tr1 @ rest)" by simp
      with c cl show ?thesis
        unfolding eq by auto
    qed
  qed
qed

lemma caller_loop_first:
  "caller_loop envs sel (Suc n) k d = (r, d', tr) \<Longrightarrow>
   tr \<noteq> [] \<and> hd tr = (sel, fst (tryClickOnce (envs k) d sel))"
  by (auto simp: split_def Let_def split: outcome.splits if_splits)

lemma clickWithRetries_first:
  assumes "0 < m" and "clickWithRetries envs cs d sel m = (res, d', tr)"
  shows "tr \<noteq> [] \<and> hd tr = (sel, fst (tryClickOnce (envs 0) d sel))"
proof -
  from assms(1) obtain n where m: "m = Suc n" by (cases m) auto
  obtain r1 d1 tr1 where t: "caller_loop envs sel (Suc n) 0 d = (r1, d1, tr1)"
    by (cases "caller_loop envs sel (Suc n) 0 d") auto
  from caller_loop_first[OF t] have f: "tr1 \<noteq> []" "hd tr1 = (sel, fst (tryClickOnce (envs 0) d sel))"
    by simp_all
  from assms(2) t m have "tr = tr1 \<or> (\<exists>rest. tr = tr1 @ rest)"
    by (auto simp: clickWithRetries_def split_def Let_def split: option.splits if_splits)
  with f show ?thesis by auto
qed

lemma clickWithRetries_first_success:
  assumes "0 < m" and "tryClickOnce (envs 0) d sel = (Success pop, d1)"
  shows "clickWithRetries envs cs d sel m = (Success pop, d1, [(sel, Success pop)])"
proof -
  from assms(1) obtain n where m: "m = Suc n" by (cases m) auto
  from assms(2) show ?thesis
    unfolding m by (simp add: clickWithRetries_def)
qed

lemma single_loop_no_match:
  "\<forall>j \<in> set js. option_reads env j \<noteq> Attribute (Some c) \<Longrightarrow>
   single_loop env c js p = (Continue, p, [])"
  by (induction js) (auto split: option_read.splits)

lemma single_loop_skip:
  "\<forall>j \<in> set js. option_reads env j \<noteq> Attribute (Some c) \<Longrightarrow>
   single_loop env c (js @ ks) p = single_loop env c ks p"
  by (induction js) (auto split: option_read.splits)

lemma single_loop_at:
  assumes "option_reads env k = Attribute (Some c)"
    and "click_op env = helper_click states"
    and "clickWithRetries (attempt_answers (states (answerOption k) 3))
           (daily_candidates (states (answerOption k) 3)) (document (states (answerOption k) 3))
           (answerOption k) 3 = (res3, d3, tr3)"
    and "clickWithRetries (attempt_answers (states (answerOption k) 1))
           (daily_candidates (states (answerOption k) 1)) (document (states (answerOption k) 1))
           (answerOption k) 1 = (res1, d1, tr1)"
  shows "snd (snd (single_loop env c (k # rest) p))
           = (case res3 of Success pop \<Rightarrow> tr3 | Failure r \<Rightarrow> tr3 @ tr1)"
proof -
  have c3: "click_op env (answerOption k) 3 = Some (res3, tr3)"
    using assms(2,3) by (simp add: helper_click_def Let_def)
  have c1: "click_op env (answerOption k) 1 = Some (res1, tr1)"
    using assms(2,4) by (simp add: helper_click_def Let_def)
  show ?thesis
  proof (cases res3)
    case (Success pop)
    with assms(1) c3 show ?thesis by simp
  next
    case (Failure r)
    with assms(1) c3 c1 show ?thesis
      by (cases res1) simp_all
  qed
qed

lemma single_loop_attempts:
  assumes "k < n"
    and "\<forall>j < n. (option_reads env j = Attribute (Some c)) = (j = k)"
    and "click_op env = helper_click states"
    and "clickWithRetries (attempt_answers (states (answerOption k) 3))
           (daily_candidates (states (answerOption k) 3)) (document (states (answerOption k) 3))
           (answerOption k) 3 = (res3, d3, tr3)"
    and "clickWithRetries (attempt_answers (states (answerOption k) 1))
           (daily_candidates (states (answerOption k) 1)) (document (states (answerOption k) 1))
           (answerOption k) 1 = (res1, d1, tr1)"
  shows "snd (snd (single_loop env c [0 ..< n] p))
           = (case res3 of Success pop \<Rightarrow> tr3 | Failure r \<Rightarrow> tr3 @ tr1)"
proof -
  from assms(1) obtain m where "n = k + Suc m"
    by (auto simp: less_iff_Suc_add)
  then have split: "[0 ..< n] = [0 ..< k] @ k # [Suc k ..< n]"
    using upt_add_eq_append[of 0 k "Suc m"] upt_conv_Cons[of k n] by simp
  have before: "\<forall>j \<in> set [0 ..< k]. option_reads env j \<noteq> Attribute (Some c)"
    using assms(1,2) by auto
  have at: "option_reads env k = Attribute (Some c)"
    using assms(1,2) by auto
  have "single_loop env c [0 ..< n] p = single_loop env c (k # [Suc k ..< n]) p"
    unfolding split using before by (rule single_loop_skip)
  with single_loop_at[OF at assms(3,4,5)] show ?thesis
    by simp
qed

lemma ts_single_loop_no_match:
  "\<forall>j \<in> set js. reads j \<noteq> Attribute (Some c) \<Longrightarrow>
   snd (ts_single_loop reads pc rf c js) = []"
  by (induction js) (auto split: option_read.splits)

lemma ts_single_loop_skip:
  "\<forall>j \<in> set js. reads j \<noteq> Attribute (Some c) \<and> (\<exists>v. reads j = Attribute v) \<Longrightarrow>
   ts_single_loop reads pc rf c (js @ ks) = ts_single_loop reads pc rf c ks"
  by (induction js) (auto split: option_read.splits)

lemma ts_single_loop_clicks:
  assumes "k < n"
    and "\<forall>j < n. (reads j = Attribute (Some c)) = (j = k)"
    and "\<forall>j < k. \<exists>v. reads j = Attribute v"
  shows "snd (ts_single_loop reads pc rf c [0 ..< n]) = [answerOption k]"
proof -
  from assms(1) obtain m where "n = k + Suc m"
    by (auto simp: less_iff_Suc_add)
  then have split: "[0 ..< n] = [0 ..< k] @ k # [Suc k ..< n]"
    using upt_add_eq_append[of 0 k "Suc m"] upt_conv_Cons[of k n] by simp
  have before: "\<forall>j \<in> set [0 ..< k]. reads j \<noteq> Attribute (Some c) \<and> (\<exists>v. reads j = Attribute v)"
    using assms by auto
  have after: "\<forall>j \<in> set [Suc k ..< n]. reads j \<noteq> Attribute (Some c)"
    using assms by auto
  have at: "reads k = Attribute (Some c)"
    using assms by auto
  have rest: "snd (ts_single_loop reads pc rf c [Suc k ..< n]) = []"
    using after by (rule ts_single_loop_no_match)
  have "ts_single_loop reads pc rf c [0 ..< n] = ts_single_loop reads pc rf c (k # [Suc k ..< n])"
    unfolding split using before by (rule ts_single_loop_skip)
  then show ?thesis
    using at rest by (auto simp: split_def)
qed

lemma attempts_of_question:
  assumes "head_data env = Some qd" and "numberOfOptions qd = Some n" and "n \<in> {2, 3, 4}"
    and "branch_data env = Some qd'" and "numberOfOptions qd' = Some n"
  shows "fst (snd (snd (answer_question env rem p)))
           = snd (snd (single_loop env (correctAnswer qd') [0 ..< nat n] p))"
proof -
  obtain f p' cs where s: "single_loop env (correctAnswer qd') [0 ..< nat n] p = (f, p', cs)"
    by (cases "single_loop env (correctAnswer qd') [0 ..< nat n] p")
  from assms(3) have n8: "n \<noteq> 8" by auto
  have "fst (snd (snd (answer_question env rem p))) = cs"
    using assms(1-5) n8 s
    by (auto simp: answer_question_def option_indices_def Let_def split: option.splits)
  with s show ?thesis by simp
qed

text \<open>
  C5, as the spec states it, fails. For the question with two options and the answer
  \<^verbatim>\<open>B\<close> whose second option never becomes visible, \<^verbatim>\<open>doQuiz\<close> of \<^verbatim>\<open>ABC.ts\<close> skips the option
  and \<^verbatim>\<open>doQuiz\<close> of \<^verbatim>\<open>Quiz.ts\<close> leaves the loop by the timeout of \<^verbatim>\<open>waitForSelector\<close>: neither
  makes a click for the question. And when both options are readable and no click strategy
  works at the first attempt on the right option, \<^verbatim>\<open>clickWithRetries\<close> goes on to the
  heuristic candidates: the one click that lands is on \<^verbatim>\<open>.pointLink\<close>, not on the option.
\<close>

theorem C5_hidden_option_counterexample:
  "fst (snd (snd (answer_question question_env_hidden (Some 3) 0))) = []
   \<and> ts_single_answer (Some question_B) reads_A_only (\<lambda>i. True) (\<lambda>i. True) = (Raised, [])
   \<and> fst (snd (snd (answer_question question_env_stuck (Some 3) 0)))
       = [(answerOption 1, Failure ClickFailed), (''.pointLink'', Success None)]"
  by code_simp

text \<open>
  C5, amended: take a question whose \<^verbatim>\<open>numberOfOptions\<close> is 2, 3 or 4 and in which exactly
  one option index \<open>k\<close> is read with a \<^verbatim>\<open>data-option\<close> equal to the \<^verbatim>\<open>correctAnswer\<close> token,
  and let the click operation be \<^verbatim>\<open>clickWithRetries\<close> in the pages the browser shows. Then,
  of the click attempts that \<^verbatim>\<open>doQuiz\<close> of \<^verbatim>\<open>ABC.ts\<close> makes for the question,
  \<^item> there is a first one, and it is made on the element \<^verbatim>\<open>#rqAnswerOption\<close>\<open>k\<close>;
  \<^item> at most one lands, and no attempt is made after it;
  \<^item> each is made on that option or on a heuristic candidate of \<^verbatim>\<open>findDailyCandidates\<close>;
  \<^item> when the first attempt lands, it is the only one: exactly one click, on the option.

  \<^verbatim>\<open>doQuiz\<close> of \<^verbatim>\<open>Quiz.ts\<close> calls exactly one click, on that option, when the options before
  it can be read.
\<close>

theorem C5_single_answer_click:
  assumes "head_data env = Some qd" and "numberOfOptions qd = Some n" and "n \<in> {2, 3, 4}"
    and "branch_data env = Some qd'" and "numberOfOptions qd' = Some n"
    and "k < nat n"
    and "\<forall>j < nat n. (option_reads env j = Attribute (Some (correctAnswer qd'))) = (j = k)"
    and "click_op env = helper_click states"
  shows "let attempts = fst (snd (snd (answer_question env rem p)));
             st = states (answerOption k) 3;
             first = tryClickOnce (attempt_answers st 0) (document st) (answerOption k)
         in attempts \<noteq> [] \<and> hd attempts = (answerOption k, fst first)
            \<and> (\<forall>a \<in> set (butlast attempts). \<not> landed a)
            \<and> (\<forall>a \<in> set attempts.
                  fst a = answerOption k
                  \<or> fst a \<in> set (daily_candidates st)
                  \<or> fst a \<in> set (daily_candidates (states (answerOption k) 1)))
            \<and> (\<forall>pop. fst first = Success pop \<longrightarrow> attempts = [(answerOption k, Success pop)])
            \<and> ((\<forall>j < k. \<exists>v. option_reads env j = Attribute v) \<longrightarrow>
                 snd (ts_single_answer (branch_data env) (option_reads env) page_click refresh)
                   = [answerOption k])"
proof -
  define attempts where "attempts = fst (snd (snd (answer_question env rem p)))"
  define st where "st = states (answerOption k) 3"
  define st' where "st' = states (answerOption k) 1"
  define first where "first = tryClickOnce (attempt_answers st 0) (document st) (answerOption k)"
  obtain res3 d3 tr3 where cw3:
    "clickWithRetries (attempt_answers st) (daily_candidates st) (document st) (answerOption k) 3
       = (res3, d3, tr3)"
    using prod_cases3 by blast
  obtain res1 d1 tr1 where cw1:
    "clickWithRetries (attempt_answers st') (daily_candidates st') (document st') (answerOption k) 1
       = (res1, d1, tr1)"
    using prod_cases3 by blast
  have att: "attempts = (case res3 of Success pop \<Rightarrow> tr3 | Failure r \<Rightarrow> tr3 @ tr1)"
    unfolding attempts_def attempts_of_question[OF assms(1-5)]
    using cw3 cw1 unfolding st_def st'_def
    by (rule single_loop_attempts[OF assms(6,7,8)])
  note l3 = clickWithRetries_landing[OF cw3]
  note l1 = clickWithRetries_landing[OF cw1]
  have f3: "tr3 \<noteq> [] \<and> hd tr3 = (answerOption k, fst first)"
    unfolding first_def using clickWithRetries_first[OF _ cw3] by simp
  have a: "attempts \<noteq> [] \<and> hd attempts = (answerOption k, fst first)"
    using f3 unfolding att by (cases res3) simp_all
  have b: "\<forall>a \<in> set (butlast attempts). \<not> landed a"
  proof (cases res3)
    case (Success pop)
    with l3 show ?thesis
      unfolding att by (simp add: one_landing_def)
  next
    case (Failure r)
    with l3 have "\<forall>a \<in> set tr3. \<not> landed a"
      by (simp add: one_landing_def)
    from one_landing_append[OF this] l1 have "one_landing res1 (tr3 @ tr1)"
      by simp
    with Failure show ?thesis
      unfolding att by (simp add: one_landing_def)
  qed
  have c: "\<forall>a \<in> set attempts.
             fst a = answerOption k
             \<or> fst a \<in> set (daily_candidates st) \<or> fst a \<in> set (daily_candidates st')"
    using l3 l1 unfolding att by (cases res3) auto
  have d: "attempts = [(answerOption k, Success pop)]" if "fst first = Success pop" for pop
  proof -
    from that have "first = (Success pop, snd first)"
      by (simp add: prod_eq_iff)
    then have "tryClickOnce (attempt_answers st 0) (document st) (answerOption k)
        = (Success pop, snd first)"
      by (simp add: first_def)
    from clickWithRetries_first_success[where m = 3 and envs = "attempt_answers st"
        and cs = "daily_candidates st", OF _ this] cw3
    have "res3 = Success pop" "tr3 = [(answerOption k, Success pop)]"
      by simp_all
    then show ?thesis
      unfolding att by simp
  qed
  have e: "snd (ts_single_answer (branch_data env) (option_reads env) page_click refresh)
                = [answerOption k]"
    if "\<forall>j < k. \<exists>v. option_reads env j = Attribute v"
    using ts_single_loop_clicks[OF assms(6,7) that] assms(4,5)
    by (simp add: ts_single_answer_def option_indices_def)
  from a b c d e show ?thesis
    unfolding Let_def attempts_def[symmetric] st_def[symmetric] st'_def[symmetric]
      first_def[symmetric]
    by blast
qed

theorem C5_single_answer_click_witness:
  "fst (snd (snd (answer_question question_env_B (Some 3) 0)))
     = [(answerOption 1, Success None)]
   \<and> snd (ts_single_answer (branch_data question_env_B) (option_reads question_env_B)
            (\<lambda>i. True) (\<lambda>i. True)) = [answerOption 1]
   \<and> click_op question_env_B = helper_click (\<lambda>sel m. quiz_page_ok)
   \<and> tryClickOnce (attempt_answers quiz_page_ok 0) (document quiz_page_ok) (answerOption 1)
       = (Success None, document quiz_page_ok)"
proof -
  have h: "head_data question_env_B = Some question_B" "numberOfOptions question_B = Some 2"
    "(2::int) \<in> {2, 3, 4}" "branch_data question_env_B = Some question_B" "(1::nat) < nat 2"
    by (simp_all add: question_env_B_def question_B_def)
  have u: "\<forall>j < nat 2. (option_reads question_env_B j = Attribute (Some (correctAnswer question_B)))
             = (j = 1)"
    by (auto simp: question_env_B_def question_B_def reads_AB_def)
  have c: "click_op question_env_B = helper_click (\<lambda>sel m. quiz_page_ok)"
    by (simp add: question_env_B_def)
  have b: "\<forall>j < (1::nat). \<exists>v. option_reads question_env_B j = Attribute v"
    by (simp add: question_env_B_def reads_AB_def)
  have t: "tryClickOnce (attempt_answers quiz_page_ok 0) (document quiz_page_ok) (answerOption 1)
       = (Success None, document quiz_page_ok)"
    by code_simp
  note w = C5_single_answer_click[OF h(1,2,3,4,2,5) u c, of "Some 3" 0 "\<lambda>i. True" "\<lambda>i. True",
      unfolded Let_def]
  from w t have "fst (snd (snd (answer_question question_env_B (Some 3) 0)))
     = [(answerOption 1, Success None)]"
    by simp
  moreover from w b
  have "snd (ts_single_answer (branch_data question_env_B) (option_reads question_env_B)
            (\<lambda>i. True) (\<lambda>i. True)) = [answerOption 1]"
    by blast
  ultimately show ?thesis
    using c t by simp
qed








lemma opens_popup: "opens (Some (Success (Some y), tr)) x = (y = x)"
  by (simp add: opens_def)














end
